theory Spec2Isabelle
  imports Main "HOL-Library.Sublist" "HOL-Library.Multiset"
    "HOL-Library.Char_ord" "HOL-Library.List_Lexorder"
begin

section \<open>Strings\<close>

text \<open>
  Python strings are modelled as \<open>string\<close> (lists of 8-bit characters). \<open>str.lower\<close> is
  modelled on the ASCII range: the letters A..Z (codes 65..90) are mapped to a..z, every
  other character is left as it is.
\<close>

definition lower_char :: "char \<Rightarrow> char" where
  "lower_char c = (let n = (of_char c :: nat) in
     if 65 \<le> n \<and> n \<le> 90 then char_of (n + 32) else c)"

definition lower :: "string \<Rightarrow> string" where
  "lower s = map lower_char s"

text \<open>Python's \<open>k in s\<close> on strings: \<open>k\<close> occurs in \<open>s\<close> as a contiguous substring.\<close>

fun str_in :: "string \<Rightarrow> string \<Rightarrow> bool" where
  "str_in k [] = (k = [])"
| "str_in k (c # cs) = (prefix k (c # cs) \<or> str_in k cs)"

section \<open>Failure classifier (\<open>BatchProcessor._is_content_policy_error\<close>)\<close>

definition content_error_keywords :: "string list" where
  "content_error_keywords =
     [''nsfw'', ''content policy'', ''content_policy'', ''policy violation'',
      ''inappropriate'', ''safety'', ''moderation'', ''banned'', ''prohibited'',
      ''explicit'', ''adult content'', ''violates'', ''not allowed'', ''restricted'']"

definition is_content_policy_error :: "string \<Rightarrow> bool" where
  "is_content_policy_error error_message =
     (if error_message = [] then False
      else let error_lower = lower error_message
           in list_ex (\<lambda>keyword. str_in keyword error_lower) content_error_keywords)"

section \<open>Persistent store (\<open>database.py\<close>)\<close>

text \<open>
  The SQLite tables are lists of rows in insertion order. TEXT columns that may be NULL are
  \<open>string option\<close>; timestamps are the text that \<open>CURRENT_TIMESTAMP\<close> yields at the
  moment of the statement and are passed in as \<open>now\<close>. Integer keys are natural numbers.
\<close>

record batch_job =
  job_id :: nat
  job_name :: string
  job_status :: string
  total_count :: int
  completed_count :: int
  failed_count :: int
  job_prompt_template :: string
  job_settings :: string
  job_created_at :: string
  job_updated_at :: string

record generation_task =
  task_id :: nat
  batch_job_id :: nat
  api_request_id :: "string option"
  task_status :: string
  face_image_path :: "string option"
  outfit_image_path :: "string option"
  background_image_path :: "string option"
  prompt :: "string option"
  result_url :: "string option"
  local_path :: "string option"
  error_message :: "string option"
  api_response :: "string option"
  task_created_at :: string
  task_updated_at :: string

record used_combination =
  uc_id :: nat
  uc_batch_job_id :: nat
  combination_hash :: string
  face_image :: string
  outfit_image :: string
  background_image :: string
  uc_created_at :: string

record database =
  batch_jobs :: "batch_job list"
  generation_tasks :: "generation_task list"
  used_combinations :: "used_combination list"

datatype db_error = IntegrityError

text \<open>\<open>INTEGER PRIMARY KEY AUTOINCREMENT\<close>: one more than the largest key in the table.\<close>

definition next_id :: "nat list \<Rightarrow> nat" where
  "next_id ids = Suc (fold max ids 0)"

text \<open>
  A raw response of the remote service is a Python dict, kept as an association list; it is
  truthy when it has an entry. \<open>json.dumps\<close> is a parameter \<open>dumps\<close> of the operations
  that serialise one.
\<close>

type_synonym json = "(string \<times> string) list"

subsection \<open>\<open>Database.update_batch_job_status\<close>, \<open>Database.increment_batch_job_count\<close>\<close>

definition update_batch_job_status :: "string \<Rightarrow> database \<Rightarrow> nat \<Rightarrow> string \<Rightarrow> database" where
  "update_batch_job_status now db jid status =
     db\<lparr>batch_jobs := map (\<lambda>j. if job_id j = jid
                                 then j\<lparr>job_status := status, job_updated_at := now\<rparr>
                                 else j) (batch_jobs db)\<rparr>"

definition increment_batch_job_count :: "string \<Rightarrow> database \<Rightarrow> nat \<Rightarrow> bool \<Rightarrow> database" where
  "increment_batch_job_count now db jid completed =
     db\<lparr>batch_jobs := map (\<lambda>j. if job_id j = jid
                                 then (if completed
                                       then j\<lparr>completed_count := completed_count j + 1,
                                              job_updated_at := now\<rparr>
                                       else j\<lparr>failed_count := failed_count j + 1,
                                              job_updated_at := now\<rparr>)
                                 else j) (batch_jobs db)\<rparr>"

subsection \<open>\<open>Database.create_generation_task\<close>\<close>

definition create_generation_task ::
  "string \<Rightarrow> database \<Rightarrow> nat \<Rightarrow> string \<Rightarrow> string \<Rightarrow> string \<Rightarrow> string \<Rightarrow> nat \<times> database" where
  "create_generation_task now db jid face_path outfit_path background_path prompt_text =
     (let new_id = next_id (map task_id (generation_tasks db));
          row = \<lparr>task_id = new_id, batch_job_id = jid, api_request_id = None,
                 task_status = ''pending'', face_image_path = Some face_path,
                 outfit_image_path = Some outfit_path,
                 background_image_path = Some background_path,
                 prompt = Some prompt_text, result_url = None, local_path = None,
                 error_message = None, api_response = None,
                 task_created_at = now, task_updated_at = now\<rparr>
      in (new_id, db\<lparr>generation_tasks := generation_tasks db @ [row]\<rparr>))"

subsection \<open>\<open>Database.update_task_status\<close>\<close>

text \<open>
  The method collects the assignments of its \<open>UPDATE\<close> statement in the list \<open>updates\<close>
  (with the bound values in \<open>params\<close>) and runs
  \<open>UPDATE generation_tasks SET ... WHERE id = ?\<close>. The model keeps the list of
  (column, value) assignments and applies it to every row that the \<open>WHERE\<close> clause selects.
\<close>

datatype task_column =
  ColStatus | ColUpdatedAt | ColApiRequestId | ColResultUrl | ColLocalPath
  | ColErrorMessage | ColApiResponse

fun set_column :: "task_column \<times> string \<Rightarrow> generation_task \<Rightarrow> generation_task" where
  "set_column (ColStatus, v) t = t\<lparr>task_status := v\<rparr>"
| "set_column (ColUpdatedAt, v) t = t\<lparr>task_updated_at := v\<rparr>"
| "set_column (ColApiRequestId, v) t = t\<lparr>api_request_id := Some v\<rparr>"
| "set_column (ColResultUrl, v) t = t\<lparr>result_url := Some v\<rparr>"
| "set_column (ColLocalPath, v) t = t\<lparr>local_path := Some v\<rparr>"
| "set_column (ColErrorMessage, v) t = t\<lparr>error_message := Some v\<rparr>"
| "set_column (ColApiResponse, v) t = t\<lparr>api_response := Some v\<rparr>"

definition sql_update_tasks ::
  "(task_column \<times> string) list \<Rightarrow> nat \<Rightarrow> generation_task list \<Rightarrow> generation_task list" where
  "sql_update_tasks updates tid rows =
     map (\<lambda>t. if task_id t = tid then fold set_column updates t else t) rows"

text \<open>Truthiness of an optional string argument: neither \<open>None\<close> nor the empty string.\<close>

fun truthy :: "'a list option \<Rightarrow> bool" where
  "truthy None = False"
| "truthy (Some v) = (v \<noteq> [])"

text \<open>\<open>if arg: updates.append("col = ?"); params.append(arg)\<close>\<close>

fun append_if ::
  "task_column \<Rightarrow> string option \<Rightarrow> (task_column \<times> string) list \<Rightarrow> (task_column \<times> string) list" where
  "append_if col None updates = updates"
| "append_if col (Some v) updates = (if v \<noteq> [] then updates @ [(col, v)] else updates)"

text \<open>\<open>if api_response: updates.append("api_response = ?"); params.append(json.dumps(api_response))\<close>\<close>

fun append_json_if ::
  "(json \<Rightarrow> string) \<Rightarrow> json option \<Rightarrow> (task_column \<times> string) list \<Rightarrow>
   (task_column \<times> string) list" where
  "append_json_if dumps None updates = updates"
| "append_json_if dumps (Some d) updates =
     (if d \<noteq> [] then updates @ [(ColApiResponse, dumps d)] else updates)"

definition update_task_status ::
  "string \<Rightarrow> (json \<Rightarrow> string) \<Rightarrow> database \<Rightarrow> nat \<Rightarrow> string \<Rightarrow> string option \<Rightarrow>
   string option \<Rightarrow> string option \<Rightarrow> string option \<Rightarrow> json option \<Rightarrow> database" where
  "update_task_status now dumps db tid status a_request_id a_result_url a_local_path
       a_error_message a_api_response =
     (let updates = [(ColStatus, status), (ColUpdatedAt, now)];
          updates = append_if ColApiRequestId a_request_id updates;
          updates = append_if ColResultUrl a_result_url updates;
          updates = append_if ColLocalPath a_local_path updates;
          updates = append_if ColErrorMessage a_error_message updates;
          updates = append_json_if dumps a_api_response updates
      in db\<lparr>generation_tasks := sql_update_tasks updates tid (generation_tasks db)\<rparr>)"

subsection \<open>\<open>Database.get_pending_tasks\<close>\<close>

text \<open>\<open>ORDER BY id\<close>: the rows are sorted by their key.\<close>

definition get_pending_tasks :: "database \<Rightarrow> nat \<Rightarrow> generation_task list" where
  "get_pending_tasks db jid =
     sort_key task_id
       (filter (\<lambda>t. batch_job_id t = jid \<and> task_status t = ''pending'') (generation_tasks db))"

subsection \<open>Combination ledger: \<open>is_combination_used\<close>, \<open>mark_combination_used\<close>\<close>

definition is_combination_used :: "database \<Rightarrow> nat \<Rightarrow> string \<Rightarrow> bool" where
  "is_combination_used db jid h =
     list_ex (\<lambda>r. uc_batch_job_id r = jid \<and> combination_hash r = h) (used_combinations db)"

text \<open>
  The \<open>INSERT\<close> into \<open>used_combinations\<close>. The table declares
  \<open>UNIQUE(batch_job_id, combination_hash)\<close>, so an insertion that would repeat a pair is
  refused with \<open>sqlite3.IntegrityError\<close>.
\<close>

definition insert_used_combination ::
  "string \<Rightarrow> database \<Rightarrow> nat \<Rightarrow> string \<Rightarrow> string \<Rightarrow> string \<Rightarrow> string \<Rightarrow> db_error + database" where
  "insert_used_combination now db jid h face outfit background =
     (if list_ex (\<lambda>r. uc_batch_job_id r = jid \<and> combination_hash r = h) (used_combinations db)
      then Inl IntegrityError
      else Inr (db\<lparr>used_combinations := used_combinations db @
                  [\<lparr>uc_id = next_id (map uc_id (used_combinations db)),
                    uc_batch_job_id = jid, combination_hash = h, face_image = face,
                    outfit_image = outfit, background_image = background,
                    uc_created_at = now\<rparr>]\<rparr>))"

text \<open>\<open>try: INSERT ... except sqlite3.IntegrityError: pass\<close>\<close>

definition mark_combination_used ::
  "string \<Rightarrow> database \<Rightarrow> nat \<Rightarrow> string \<Rightarrow> string \<Rightarrow> string \<Rightarrow> string \<Rightarrow> database" where
  "mark_combination_used now db jid h face outfit background =
     (case insert_used_combination now db jid h face outfit background of
        Inl IntegrityError \<Rightarrow> db
      | Inr db' \<Rightarrow> db')"

text \<open>The \<open>UNIQUE(batch_job_id, combination_hash)\<close> constraint, as a property of the table.\<close>

definition ledger_unique :: "database \<Rightarrow> bool" where
  "ledger_unique db =
     distinct (map (\<lambda>r. (uc_batch_job_id r, combination_hash r)) (used_combinations db))"

definition ledger_rows :: "database \<Rightarrow> nat \<Rightarrow> string \<Rightarrow> used_combination list" where
  "ledger_rows db jid h =
     filter (\<lambda>r. uc_batch_job_id r = jid \<and> combination_hash r = h) (used_combinations db)"

section \<open>Paths and the file system\<close>

text \<open>
  \<open>pathlib.Path\<close> on a POSIX system. A path object is a root (empty, \<open>/\<close> or \<open>//\<close>) and
  the list of its components. Parsing a string splits off the root (exactly two leading
  slashes are kept as \<open>//\<close>, any other number of leading slashes is \<open>/\<close>), splits the rest
  at the separator and drops empty components and \<open>.\<close> components. \<open>str\<close> of a path joins
  the components again and is \<open>.\<close> for the path without root and components.
\<close>

datatype pure_path = PurePath (p_root: string) (p_tail: "string list")

fun split_sep :: "string \<Rightarrow> string list" where
  "split_sep [] = [[]]"
| "split_sep (c # cs) =
     (if c = CHR ''/'' then [] # split_sep cs
      else (case split_sep cs of [] \<Rightarrow> [[c]] | w # ws \<Rightarrow> (c # w) # ws))"

fun join_sep :: "string list \<Rightarrow> string" where
  "join_sep [] = []"
| "join_sep [x] = x"
| "join_sep (x # y # ys) = x @ ''/'' @ join_sep (y # ys)"

definition splitroot :: "string \<Rightarrow> string \<times> string" where
  "splitroot s =
     (if take 1 s \<noteq> ''/'' then ([], s)
      else if take 1 (drop 1 s) \<noteq> ''/'' \<or> take 1 (drop 2 s) = ''/'' then (''/'', drop 1 s)
      else (''//'', drop 2 s))"

text \<open>\<open>Path(s)\<close>\<close>

definition parse_path :: "string \<Rightarrow> pure_path" where
  "parse_path s =
     (case splitroot s of
        (root, rel) \<Rightarrow> PurePath root (filter (\<lambda>x. x \<noteq> [] \<and> x \<noteq> ''.'') (split_sep rel)))"

text \<open>\<open>str(path)\<close>\<close>

definition path_str :: "pure_path \<Rightarrow> string" where
  "path_str p = (if p_root p = [] \<and> p_tail p = [] then ''.'' else p_root p @ join_sep (p_tail p))"

text \<open>\<open>path.name\<close>: the last component, empty for a path without components.\<close>

definition p_name :: "pure_path \<Rightarrow> string" where
  "p_name p = (if p_tail p = [] then [] else last (p_tail p))"

text \<open>
  \<open>path.suffix\<close>: with \<open>i\<close> the position of the last dot of the name, the suffix is
  \<open>name[i:]\<close> when \<open>0 < i < len(name) - 1\<close> and empty otherwise.
\<close>

definition name_suffix :: "string \<Rightarrow> string" where
  "name_suffix name =
     (let ext = rev (takeWhile (\<lambda>c. c \<noteq> CHR ''.'') (rev name))
      in if ext \<noteq> [] \<and> length ext + 1 < length name then CHR ''.'' # ext else [])"

definition p_suffix :: "pure_path \<Rightarrow> string" where
  "p_suffix p = name_suffix (p_name p)"

text \<open>\<open>Path(s).suffix\<close> and \<open>Path(s).stem\<close> (the name without its suffix) of a string.\<close>

definition path_suffix :: "string \<Rightarrow> string" where
  "path_suffix s = p_suffix (parse_path s)"

definition path_stem :: "string \<Rightarrow> string" where
  "path_stem s =
     (let name = p_name (parse_path s) in take (length name - length (name_suffix name)) name)"

text \<open>
  The directory tree is a function from path strings (as \<open>str\<close> yields them) to nodes; a
  directory lists the names of its entries in the (arbitrary) order in which the system
  yields them. Reading a text file is a second function \<open>disk\<close>: the decoded text, or
  \<open>None\<close> when \<open>read_text\<close> raises (missing file, permission, decoding).
\<close>

datatype fs_node = Missing | RegularFile | Directory "string list"

type_synonym filesystem = "string \<Rightarrow> fs_node"

type_synonym disk = "string \<Rightarrow> string option"

text \<open>\<open>path.is_dir()\<close>, \<open>path.is_file()\<close>\<close>

definition is_dir :: "filesystem \<Rightarrow> pure_path \<Rightarrow> bool" where
  "is_dir fs p = (case fs (path_str p) of Directory _ \<Rightarrow> True | _ \<Rightarrow> False)"

definition is_file :: "filesystem \<Rightarrow> pure_path \<Rightarrow> bool" where
  "is_file fs p = (case fs (path_str p) of RegularFile \<Rightarrow> True | _ \<Rightarrow> False)"

text \<open>The path of the entry \<open>name\<close> of a directory: the name becomes the last component.\<close>

definition child :: "pure_path \<Rightarrow> string \<Rightarrow> pure_path" where
  "child folder name = PurePath (p_root folder) (p_tail folder @ [name])"

text \<open>\<open>folder.iterdir()\<close>\<close>

definition iterdir :: "filesystem \<Rightarrow> pure_path \<Rightarrow> pure_path list" where
  "iterdir fs folder =
     (case fs (path_str folder) of Directory names \<Rightarrow> map (child folder) names | _ \<Rightarrow> [])"

text \<open>\<open>str.strip()\<close>: white space (ASCII codes 9 to 13, 28 to 32) removed at both ends.\<close>

definition is_space :: "char \<Rightarrow> bool" where
  "is_space c = (let n = (of_char c :: nat) in (9 \<le> n \<and> n \<le> 13) \<or> (28 \<le> n \<and> n \<le> 32))"

definition strip :: "string \<Rightarrow> string" where
  "strip s = rev (dropWhile is_space (rev (dropWhile is_space s)))"

section \<open>Source pools (\<open>ImageSource\<close>, \<open>PromptSource\<close>)\<close>

record image_source =
  img_path :: string
  img_is_folder :: bool
  img_files :: "string list"

definition image_extensions :: "string list" where
  "image_extensions = [''.jpg'', ''.jpeg'', ''.png'', ''.webp'', ''.gif'']"

text \<open>\<open>ImageSource._scan_folder\<close>\<close>

definition image_scan_folder :: "filesystem \<Rightarrow> pure_path \<Rightarrow> string list" where
  "image_scan_folder fs folder =
     sort (map path_str
             (filter (\<lambda>f. is_file fs f \<and> lower (p_suffix f) \<in> set image_extensions)
                (iterdir fs folder)))"

text \<open>\<open>ImageSource.__post_init__\<close>\<close>

definition image_source_init :: "filesystem \<Rightarrow> string \<Rightarrow> image_source" where
  "image_source_init fs path =
     (let p = parse_path path
      in if is_dir fs p
         then \<lparr>img_path = path, img_is_folder = True, img_files = image_scan_folder fs p\<rparr>
         else if is_file fs p
         then \<lparr>img_path = path, img_is_folder = False, img_files = [path_str p]\<rparr>
         else \<lparr>img_path = path, img_is_folder = False, img_files = []\<rparr>)"

record prompt_source =
  ps_path :: string
  ps_is_folder :: bool
  ps_files :: "string list"
  contents_cache :: "string \<rightharpoonup> string"

text \<open>\<open>PromptSource._scan_folder\<close>\<close>

definition prompt_scan_folder :: "filesystem \<Rightarrow> pure_path \<Rightarrow> string list" where
  "prompt_scan_folder fs folder =
     sort (map path_str
             (filter (\<lambda>f. is_file fs f \<and> lower (p_suffix f) = ''.txt'') (iterdir fs folder)))"

text \<open>\<open>PromptSource.__post_init__\<close>\<close>

definition prompt_source_init :: "filesystem \<Rightarrow> string \<Rightarrow> prompt_source" where
  "prompt_source_init fs path =
     (if path = []
      then \<lparr>ps_path = path, ps_is_folder = False, ps_files = [], contents_cache = Map.empty\<rparr>
      else let p = parse_path path
           in if is_dir fs p
              then \<lparr>ps_path = path, ps_is_folder = True, ps_files = prompt_scan_folder fs p,
                     contents_cache = Map.empty\<rparr>
              else if is_file fs p \<and> lower (p_suffix p) = ''.txt''
              then \<lparr>ps_path = path, ps_is_folder = False, ps_files = [path_str p],
                     contents_cache = Map.empty\<rparr>
              else \<lparr>ps_path = path, ps_is_folder = False, ps_files = [],
                     contents_cache = Map.empty\<rparr>)"

text \<open>
  \<open>PromptSource._read_file\<close>. Besides the content and the source with its cache, the model
  returns how the request was served: from the cache, or by a call of \<open>read_text\<close> on the
  disk, which succeeded or raised.
\<close>

datatype read_event = FromCache | DiskRead bool

definition read_file :: "disk \<Rightarrow> prompt_source \<Rightarrow> string \<Rightarrow> string \<times> prompt_source \<times> read_event" where
  "read_file dsk src file_path =
     (case contents_cache src file_path of
        Some cached \<Rightarrow> (cached, src, FromCache)
      | None \<Rightarrow>
          (case dsk file_path of
             Some text \<Rightarrow>
               (let content = strip text
                in (content,
                    src\<lparr>contents_cache := (contents_cache src)(file_path \<mapsto> content)\<rparr>,
                    DiskRead True))
           | None \<Rightarrow> ([], src, DiskRead False)))"

text \<open>\<open>PromptSource.get_content\<close>\<close>

definition get_content :: "disk \<Rightarrow> prompt_source \<Rightarrow> string \<Rightarrow> string \<times> prompt_source \<times> read_event" where
  "get_content dsk src file_path = read_file dsk src file_path"

text \<open>
  A sequence of content requests on one source; each request comes with the state of the
  disk at its time. The result lists, per request, the path, the content returned and how it
  was served.
\<close>

fun serve ::
  "prompt_source \<Rightarrow> (disk \<times> string) list \<Rightarrow> (string \<times> string \<times> read_event) list \<times> prompt_source" where
  "serve src [] = ([], src)"
| "serve src ((dsk, p) # reqs) =
     (case get_content dsk src p of
        (content, src', ev) \<Rightarrow>
          (case serve src' reqs of (log, src'') \<Rightarrow> ((p, content, ev) # log, src'')))"

text \<open>How often a path was read successfully from the disk in a log of requests.\<close>

definition successful_reads :: "string \<Rightarrow> (string \<times> string \<times> read_event) list \<Rightarrow> nat" where
  "successful_reads p log = length (filter (\<lambda>(q, c, ev). q = p \<and> ev = DiskRead True) log)"

section \<open>Batch configuration and processor state\<close>

text \<open>
  \<open>BatchConfig\<close>. The fields that are only handed on to the remote service (\<open>model\<close>,
  \<open>resolution\<close>, \<open>aspect_ratio\<close>, \<open>request_delay\<close>, \<open>poll_interval\<close>,
  \<open>task_timeout\<close>) have no influence on the functions modelled here and are left out.
\<close>

record batch_config =
  cfg_name :: string
  cfg_total_count :: int
  prompt_template :: string
  face_source :: "image_source option"
  outfit_source :: "image_source option"
  background_source :: "image_source option"
  prompt_source :: "prompt_source option"
  allow_duplicate_combinations :: bool
  error_folder :: string

text \<open>
  What the processor works in: \<open>hashlib.md5(...).hexdigest()\<close> as a function on strings,
  the outcomes of \<open>random.choice\<close> as a sequence of numbers (the \<open>n\<close>-th call picks the
  element at index \<open>env_random n mod length\<close>), the readable files, and the time stamp of
  the store's statements.
\<close>

record environment =
  env_md5 :: "string \<Rightarrow> string"
  env_random :: "nat \<Rightarrow> nat"
  env_disk :: disk
  env_now :: string

text \<open>
  The mutable state: the store, the configuration (whose prompt source carries the content
  cache), and the number of \<open>random.choice\<close> calls made so far.
\<close>

record proc_state =
  st_db :: database
  st_config :: batch_config
  st_draws :: nat

definition random_choice :: "environment \<Rightarrow> nat \<Rightarrow> 'a list \<Rightarrow> 'a" where
  "random_choice env n xs = xs ! (env_random env n mod length xs)"

text \<open>
  \<open>ImageSource.get_random\<close>. The exclusion set is a set of paths; the empty set stands for
  both \<open>None\<close> and an empty set, which the source treats alike. The second component is
  the number of draws made after the call.
\<close>

definition image_get_random ::
  "environment \<Rightarrow> image_source \<Rightarrow> string set \<Rightarrow> nat \<Rightarrow> string option \<times> nat" where
  "image_get_random env src exclude n =
     (if img_files src = [] then (None, n)
      else let available = (if exclude \<noteq> {} then filter (\<lambda>f. f \<notin> exclude) (img_files src)
                            else img_files src)
           in if available = [] then (None, n)
              else (Some (random_choice env n available), Suc n))"

text \<open>\<open>PromptSource.get_random\<close>\<close>

definition prompt_get_random ::
  "environment \<Rightarrow> prompt_source \<Rightarrow> string set \<Rightarrow> nat \<Rightarrow>
   (string \<times> string) option \<times> prompt_source \<times> nat" where
  "prompt_get_random env src exclude n =
     (if ps_files src = [] then (None, src, n)
      else let available = (if exclude \<noteq> {} then filter (\<lambda>f. f \<notin> exclude) (ps_files src)
                            else ps_files src)
           in if available = [] then (None, src, n)
              else let selected = random_choice env n available
                   in (case read_file (env_disk env) src selected of
                         (content, src', ev) \<Rightarrow> (Some (selected, content), src', Suc n)))"

section \<open>Combination selector (\<open>BatchProcessor._select_combination\<close>)\<close>

text \<open>\<open>BatchProcessor._generate_combination_hash\<close>\<close>

definition generate_combination_hash ::
  "environment \<Rightarrow> string \<Rightarrow> string \<Rightarrow> string \<Rightarrow> string \<Rightarrow> string" where
  "generate_combination_hash env face outfit background prompt_file =
     env_md5 env (face @ ''|'' @ outfit @ ''|'' @ background @ ''|'' @ prompt_file)"

text \<open>
  \<open>source.get_random() or ""\<close> for a source that is configured and has files; the empty
  string for a source that is not configured or has no files.
\<close>

definition draw_image ::
  "environment \<Rightarrow> image_source option \<Rightarrow> nat \<Rightarrow> string \<times> nat" where
  "draw_image env source n =
     (case source of
        None \<Rightarrow> ([], n)
      | Some src \<Rightarrow>
          if img_files src = [] then ([], n)
          else (case image_get_random env src {} n of
                  (None, n') \<Rightarrow> ([], n')
                | (Some f, n') \<Rightarrow> (f, n')))"

text \<open>
  The prompt part of one attempt: with a prompt source that has files, a draw that excludes
  the used prompts and, when that yields nothing, a second draw without exclusion; without
  one, the template as content and no file. The result is
  (\<open>prompt_file\<close>, \<open>prompt_content\<close>) and the state after the draws.
\<close>

definition draw_prompt ::
  "environment \<Rightarrow> string set \<Rightarrow> proc_state \<Rightarrow> (string \<times> string) \<times> proc_state" where
  "draw_prompt env used_prompts st =
     (let cfg = st_config st in
      case prompt_source cfg of
        None \<Rightarrow> (([], prompt_template cfg), st)
      | Some src \<Rightarrow>
          if ps_files src = [] then (([], prompt_template cfg), st)
          else (case prompt_get_random env src used_prompts (st_draws st) of
                  (Some res, src', n') \<Rightarrow>
                    (res, st\<lparr>st_config := cfg\<lparr>prompt_source := Some src'\<rparr>, st_draws := n'\<rparr>)
                | (None, src', n') \<Rightarrow>
                    (case prompt_get_random env src' {} n' of
                       (Some res, src'', n'') \<Rightarrow>
                         (res, st\<lparr>st_config := cfg\<lparr>prompt_source := Some src''\<rparr>,
                                  st_draws := n''\<rparr>)
                     | (None, src'', n'') \<Rightarrow>
                         (([], []), st\<lparr>st_config := cfg\<lparr>prompt_source := Some src''\<rparr>,
                                       st_draws := n''\<rparr>))))"

type_synonym combination = "string \<times> string \<times> string \<times> string \<times> string"

text \<open>
  The draws of one pass through the body of the \<open>for\<close> loop, up to the duplicate check.
\<close>

definition draw_combination ::
  "environment \<Rightarrow> string set \<Rightarrow> proc_state \<Rightarrow> combination \<times> proc_state" where
  "draw_combination env used_prompts st =
     (let cfg = st_config st in
      case draw_image env (face_source cfg) (st_draws st) of (face, n1) \<Rightarrow>
      case draw_image env (outfit_source cfg) n1 of (outfit, n2) \<Rightarrow>
      case draw_image env (background_source cfg) n2 of (background, n3) \<Rightarrow>
      case draw_prompt env used_prompts (st\<lparr>st_draws := n3\<rparr>) of
        ((prompt_file, prompt_content), st') \<Rightarrow>
          ((face, outfit, background, prompt_file, prompt_content), st'))"

text \<open>
  The loop \<open>for _ in range(max_attempts)\<close>, with the number of attempts that are left; when
  none is left the fallback tuple is returned.
\<close>

fun select_attempts ::
  "environment \<Rightarrow> nat \<Rightarrow> string set \<Rightarrow> nat \<Rightarrow> proc_state \<Rightarrow> combination \<times> proc_state" where
  "select_attempts env jid used_prompts 0 st =
     (([], [], [], [], prompt_template (st_config st)), st)"
| "select_attempts env jid used_prompts (Suc k) st =
     (case draw_combination env used_prompts st of
        ((face, outfit, background, prompt_file, prompt_content), st') \<Rightarrow>
          if \<not> allow_duplicate_combinations (st_config st')
          then (let combo_hash = generate_combination_hash env face outfit background prompt_file
                in if is_combination_used (st_db st') jid combo_hash
                   then select_attempts env jid used_prompts k st'
                   else ((face, outfit, background, prompt_file, prompt_content),
                         st'\<lparr>st_db := mark_combination_used (env_now env) (st_db st') jid
                                         combo_hash face outfit background\<rparr>))
          else ((face, outfit, background, prompt_file, prompt_content), st'))"

definition max_attempts :: nat where
  "max_attempts = 100"

definition select_combination ::
  "environment \<Rightarrow> nat \<Rightarrow> string set \<Rightarrow> proc_state \<Rightarrow> combination \<times> proc_state" where
  "select_combination env jid used_prompts st =
     select_attempts env jid used_prompts max_attempts st"

section \<open>Task preparation (\<open>BatchProcessor.prepare_tasks\<close>)\<close>

text \<open>
  \<open>str.replace(old, new)\<close> for a non-empty \<open>old\<close>: the occurrences are replaced from left
  to right without overlap. The counter tells how many characters of a replaced
  occurrence are still to be skipped.
\<close>

fun replace_from :: "string \<Rightarrow> string \<Rightarrow> nat \<Rightarrow> string \<Rightarrow> string" where
  "replace_from old new skip [] = []"
| "replace_from old new skip (c # cs) =
     (if 0 < skip then replace_from old new (skip - 1) cs
      else if prefix old (c # cs) then new @ replace_from old new (length old - 1) cs
      else c # replace_from old new 0 cs)"

definition str_replace :: "string \<Rightarrow> string \<Rightarrow> string \<Rightarrow> string" where
  "str_replace old new s = replace_from old new 0 s"

text \<open>\<open>BatchProcessor._build_prompt\<close>\<close>

definition build_prompt :: "string \<Rightarrow> string \<Rightarrow> string \<Rightarrow> string \<Rightarrow> string" where
  "build_prompt template face outfit background =
     (let replacements =
            [(''{face}'', if face \<noteq> [] then path_stem face else []),
             (''{outfit}'', if outfit \<noteq> [] then path_stem outfit else []),
             (''{background}'', if background \<noteq> [] then path_stem background else [])]
      in fold (\<lambda>(placeholder, v) p. str_replace placeholder v p) replacements template)"

text \<open>
  A selection records, for a task that was created, its key and the
  (\<open>face\<close>, \<open>outfit\<close>, \<open>background\<close>, \<open>prompt_file\<close>) tuple it was built from; the task row
  itself does not store the prompt file.
\<close>

type_synonym selection = "nat \<times> string \<times> string \<times> string \<times> string"

definition selection_tuple :: "selection \<Rightarrow> string \<times> string \<times> string \<times> string" where
  "selection_tuple s = snd s"

text \<open>
  The loop \<open>for i in range(config.total_count)\<close>, with the number of iterations that are
  left. The loop state is the set of used prompt files, the count of created tasks, the
  processor state and the selections of the created tasks. The warning sent to the
  progress callback for a skipped iteration is not modelled.
\<close>

fun prepare_loop ::
  "environment \<Rightarrow> nat \<Rightarrow> nat \<Rightarrow> string set \<Rightarrow> nat \<Rightarrow> proc_state \<Rightarrow> selection list \<Rightarrow>
   nat \<times> proc_state \<times> selection list" where
  "prepare_loop env jid 0 used_prompts created_count st sels = (created_count, st, sels)"
| "prepare_loop env jid (Suc k) used_prompts created_count st sels =
     (case select_combination env jid used_prompts st of
        ((face, outfit, background, prompt_file, prompt_content), st1) \<Rightarrow>
          (let used_prompts' = (if prompt_file \<noteq> [] then insert prompt_file used_prompts
                                else used_prompts);
               prompt_text = build_prompt prompt_content face outfit background
           in if prompt_text = []
              then prepare_loop env jid k used_prompts' created_count st1 sels
              else (case create_generation_task (env_now env) (st_db st1) jid
                           face outfit background prompt_text of
                      (tid, db') \<Rightarrow>
                        prepare_loop env jid k used_prompts' (created_count + 1)
                          (st1\<lparr>st_db := db'\<rparr>)
                          (sels @ [(tid, face, outfit, background, prompt_file)]))))"

definition prepare_tasks ::
  "environment \<Rightarrow> nat \<Rightarrow> proc_state \<Rightarrow> nat \<times> proc_state \<times> selection list" where
  "prepare_tasks env jid st =
     prepare_loop env jid (nat (cfg_total_count (st_config st))) {} 0 st []"

subsection \<open>Vocabulary for the selections of a preparation pass\<close>

text \<open>The ledger hash of a (\<open>face\<close>, \<open>outfit\<close>, \<open>background\<close>, \<open>prompt_file\<close>) tuple.\<close>

definition tuple_hash :: "environment \<Rightarrow> string \<times> string \<times> string \<times> string \<Rightarrow> string" where
  "tuple_hash env t =
     (case t of (face, outfit, background, prompt_file) \<Rightarrow>
        generate_combination_hash env face outfit background prompt_file)"

text \<open>The tuple of the fallback that \<open>_select_combination\<close> returns when its attempts run out.\<close>

definition empty_tuple :: "string \<times> string \<times> string \<times> string" where
  "empty_tuple = ([], [], [], [])"

text \<open>Two selections at different positions share their tuple only if it is the empty tuple.\<close>

definition repeats_only_empty :: "selection list \<Rightarrow> bool" where
  "repeats_only_empty sels =
     (\<forall>j < length sels. \<forall>i < j.
        selection_tuple (sels ! i) = selection_tuple (sels ! j)
          \<longrightarrow> selection_tuple (sels ! i) = empty_tuple)"

section \<open>Batch runner (\<open>BatchProcessor.run_batch\<close>)\<close>

subsection \<open>The remote service\<close>

text \<open>\<open>TaskStatus\<close> and \<open>GenerationResult\<close> of the client (without \<open>credits_used\<close>).\<close>

datatype remote_status = PENDING | PROCESSING | COMPLETED | FAILED | UNKNOWN

record generation_result =
  gr_success :: bool
  gr_task_id :: "string option"
  gr_status :: remote_status
  gr_image_url :: "string option"
  gr_image_urls :: "string list option"
  gr_error :: "string option"
  gr_raw_response :: "json option"

text \<open>A call of \<open>generate_and_wait\<close> returns a result or raises an exception.\<close>

datatype api_outcome = Returns generation_result | Raises string

subsection \<open>Environment and state of a run\<close>

text \<open>
  What a run meets from outside. The stop and pause flags are set and cleared by another
  thread; \<open>re_stop n\<close> and \<open>re_pause n\<close> are the values that the \<open>n\<close>-th reading of a flag
  in this run finds. \<open>re_api n task\<close> is the outcome of the \<open>n\<close>-th call of
  \<open>generate_and_wait\<close>, made for \<open>task\<close>. \<open>re_move_ok n\<close> tells whether creating the
  error folder and moving the file succeed at the \<open>n\<close>-th call of \<open>_move_error_image\<close>
  (they raise otherwise). \<open>re_now\<close> is the time stamp of the store's statements,
  \<open>re_stamp\<close> the one used to rename a moved file, \<open>re_dumps\<close> is \<open>json.dumps\<close>.
\<close>

record run_env =
  re_stop :: "nat \<Rightarrow> bool"
  re_pause :: "nat \<Rightarrow> bool"
  re_api :: "nat \<Rightarrow> generation_task \<Rightarrow> api_outcome"
  re_move_ok :: "nat \<Rightarrow> bool"
  re_now :: string
  re_stamp :: string
  re_dumps :: "json \<Rightarrow> string"

text \<open>
  The state of a run: the store, the set of paths that exist in the file system, the
  \<open>results\<close> dictionary (\<open>moved_images\<close> is absent until the first move), and three
  records of what the run has done so far: the number of flag readings, the number of calls
  of \<open>generate_and_wait\<close> (the tasks dispatched), and the calls of \<open>_move_error_image\<close>
  with image path, folder and returned value.
\<close>

record run_state =
  rs_db :: database
  rs_files :: "string set"
  res_total :: nat
  res_completed :: nat
  res_failed :: nat
  res_stopped :: bool
  res_moved_images :: "nat option"
  rs_tick :: nat
  rs_dispatched :: nat
  rs_moves :: "(string \<times> string \<times> bool) list"

subsection \<open>\<open>BatchProcessor._move_error_image\<close>\<close>

definition move_error_image ::
  "run_env \<Rightarrow> nat \<Rightarrow> string set \<Rightarrow> string \<Rightarrow> string \<Rightarrow> bool \<times> string set" where
  "move_error_image env n files image_path folder =
     (if image_path = [] \<or> folder = [] then (False, files)
      else let src_path = parse_path image_path
           in if path_str src_path \<notin> files then (False, files)
              else if \<not> re_move_ok env n then (False, files)
              else let dest_folder = parse_path folder;
                       name = p_name src_path;
                       dest_path = child dest_folder name;
                       dest_path' =
                         (if path_str dest_path \<in> files
                          then child dest_folder
                                 (take (length name - length (name_suffix name)) name
                                    @ ''_'' @ re_stamp env @ name_suffix name)
                          else dest_path)
                   in (True, insert (path_str dest_path') (files - {path_str src_path})))"

subsection \<open>The checks at the head of an iteration\<close>

text \<open>
  The loop \<open>while self._pause_flag.is_set()\<close>, from the reading number \<open>t\<close> on. It returns
  whether a stop was seen and the number of the next reading; it has no value when the pause
  flag stays set for ever and no stop is seen.
\<close>

partial_function (option) pause_wait ::
  "(nat \<Rightarrow> bool) \<Rightarrow> (nat \<Rightarrow> bool) \<Rightarrow> nat \<Rightarrow> (bool \<times> nat) option" where
  "pause_wait pause_flag stop_flag t =
     (if pause_flag t
      then (if stop_flag (Suc t) then Some (True, Suc (Suc t))
            else pause_wait pause_flag stop_flag (Suc (Suc t)))
      else Some (False, Suc t))"

declare pause_wait.simps [code]

text \<open>
  The stop check followed by the pause loop: whether the iteration is abandoned because a
  stop was seen, and the number of the next reading.
\<close>

definition check_signals :: "run_env \<Rightarrow> nat \<Rightarrow> (bool \<times> nat) option" where
  "check_signals env t =
     (if re_stop env t then Some (True, Suc t)
      else pause_wait (re_pause env) (re_stop env) (Suc t))"

subsection \<open>The body of the loop\<close>

text \<open>The branch for a successful result.\<close>

definition on_success ::
  "run_env \<Rightarrow> nat \<Rightarrow> generation_task \<Rightarrow> generation_result \<Rightarrow> run_state \<Rightarrow> run_state" where
  "on_success env jid task result st =
     (let image_url = (if \<not> truthy (gr_image_url result) \<and> truthy (gr_image_urls result)
                       then (case gr_image_urls result of
                               Some (u # us) \<Rightarrow> Some u | _ \<Rightarrow> gr_image_url result)
                       else gr_image_url result);
          db1 = update_task_status (re_now env) (re_dumps env) (rs_db st) (task_id task)
                  ''completed'' (gr_task_id result) image_url None None (gr_raw_response result);
          db2 = increment_batch_job_count (re_now env) db1 jid True
      in st\<lparr>rs_db := db2, res_completed := res_completed st + 1\<rparr>)"

text \<open>\<open>result.error or "Unknown error"\<close>\<close>

definition error_text :: "generation_result \<Rightarrow> string" where
  "error_text result =
     (case gr_error result of
        Some e \<Rightarrow> if e \<noteq> [] then e else ''Unknown error''
      | None \<Rightarrow> ''Unknown error'')"

text \<open>The branch for a failure, with the move of the outfit image of a flagged task.\<close>

definition on_failure ::
  "run_env \<Rightarrow> batch_config \<Rightarrow> nat \<Rightarrow> generation_task \<Rightarrow> generation_result \<Rightarrow> run_state \<Rightarrow>
   run_state" where
  "on_failure env cfg jid task result st =
     (let error_msg = error_text result;
          db1 = update_task_status (re_now env) (re_dumps env) (rs_db st) (task_id task)
                  ''failed'' (gr_task_id result) None None (Some error_msg)
                  (gr_raw_response result);
          db2 = increment_batch_job_count (re_now env) db1 jid False;
          st1 = st\<lparr>rs_db := db2, res_failed := res_failed st + 1\<rparr>
      in if error_folder cfg \<noteq> [] \<and> truthy (outfit_image_path task)
         then (if is_content_policy_error error_msg
               then (case outfit_image_path task of
                       None \<Rightarrow> st1
                     | Some outfit \<Rightarrow>
                         (case move_error_image env (length (rs_moves st1)) (rs_files st1)
                                 outfit (error_folder cfg) of
                            (moved, files') \<Rightarrow>
                              (let st2 = st1\<lparr>rs_files := files',
                                             rs_moves := rs_moves st1
                                               @ [(outfit, error_folder cfg, moved)]\<rparr>
                               in if moved
                                  then st2\<lparr>res_moved_images :=
                                             Some (case res_moved_images st2 of
                                                     None \<Rightarrow> 1 | Some m \<Rightarrow> m + 1)\<rparr>
                                  else st2)))
               else st1)
         else st1)"

text \<open>
  One pass through the body of \<open>for i, task in enumerate(tasks)\<close>. The messages to the
  progress callback and the sleep between requests are not modelled.
\<close>

datatype 's step_result = Break 's | Raise string 's | Continue 's

definition iteration ::
  "run_env \<Rightarrow> batch_config \<Rightarrow> nat \<Rightarrow> generation_task \<Rightarrow> run_state \<Rightarrow>
   run_state step_result option" where
  "iteration env cfg jid task st =
     (case check_signals env (rs_tick st) of
        None \<Rightarrow> None
      | Some (True, t') \<Rightarrow> Some (Break (st\<lparr>res_stopped := True, rs_tick := t'\<rparr>))
      | Some (False, t') \<Rightarrow>
          (let db1 = update_task_status (re_now env) (re_dumps env) (rs_db st) (task_id task)
                       ''processing'' None None None None None;
               st1 = st\<lparr>rs_db := db1, rs_tick := t', rs_dispatched := rs_dispatched st + 1\<rparr>
           in case re_api env (rs_dispatched st) task of
                Raises e \<Rightarrow> Some (Raise e st1)
              | Returns result \<Rightarrow>
                  if gr_success result \<and> gr_status result = COMPLETED
                  then Some (Continue (on_success env jid task result st1))
                  else Some (Continue (on_failure env cfg jid task result st1))))"

text \<open>
  The loop over the tasks fetched at the start. The result is the state at the end of the
  loop, with the message of the exception when one was raised; it has no value when the
  loop does not end.
\<close>

fun run_loop ::
  "run_env \<Rightarrow> batch_config \<Rightarrow> nat \<Rightarrow> generation_task list \<Rightarrow> run_state \<Rightarrow>
   (string option \<times> run_state) option" where
  "run_loop env cfg jid [] st = Some (None, st)"
| "run_loop env cfg jid (task # tasks) st =
     (case iteration env cfg jid task st of
        None \<Rightarrow> None
      | Some (Break st') \<Rightarrow> Some (None, st')
      | Some (Raise e st') \<Rightarrow> Some (Some e, st')
      | Some (Continue st') \<Rightarrow> run_loop env cfg jid tasks st')"

text \<open>
  \<open>run_batch\<close>: the job is marked running, the pending tasks are fetched and processed, and
  the job is marked stopped or completed; when the loop raised, the job is marked error and
  the exception is passed on.
\<close>

definition start_state :: "run_env \<Rightarrow> nat \<Rightarrow> database \<Rightarrow> string set \<Rightarrow> run_state" where
  "start_state env jid db0 files =
     (let db1 = update_batch_job_status (re_now env) db0 jid ''running'';
          tasks = get_pending_tasks db1 jid
      in \<lparr>rs_db = db1, rs_files = files, res_total = length tasks, res_completed = 0,
           res_failed = 0, res_stopped = False, res_moved_images = None,
           rs_tick = 0, rs_dispatched = 0, rs_moves = []\<rparr>)"

definition run_batch ::
  "run_env \<Rightarrow> batch_config \<Rightarrow> nat \<Rightarrow> database \<Rightarrow> string set \<Rightarrow>
   (string option \<times> run_state) option" where
  "run_batch env cfg jid db0 files =
     (let st = start_state env jid db0 files;
          tasks = get_pending_tasks (rs_db st) jid
      in case run_loop env cfg jid tasks st of
           None \<Rightarrow> None
         | Some (Some e, st') \<Rightarrow>
             Some (Some e, st'\<lparr>rs_db := update_batch_job_status (re_now env) (rs_db st') jid
                                           ''error''\<rparr>)
         | Some (None, st') \<Rightarrow>
             (let final_status = (if res_stopped st' then ''stopped'' else ''completed'')
              in Some (None, st'\<lparr>rs_db := update_batch_job_status (re_now env) (rs_db st') jid
                                               final_status\<rparr>)))"

subsection \<open>Vocabulary for the counters of the jobs\<close>

text \<open>Key, completed count and failed count of every job row, in table order.\<close>

definition counters :: "database \<Rightarrow> (nat \<times> int \<times> int) list" where
  "counters d = map (\<lambda>j. (job_id j, completed_count j, failed_count j)) (batch_jobs d)"

text \<open>The counters after \<open>c\<close> increments of completed and \<open>f\<close> of failed for job \<open>jid\<close>.\<close>

definition bump :: "nat \<Rightarrow> nat \<Rightarrow> nat \<Rightarrow> (nat \<times> int \<times> int) list \<Rightarrow> (nat \<times> int \<times> int) list" where
  "bump jid c f cs =
     map (\<lambda>(i, a, b). if i = jid then (i, a + int c, b + int f) else (i, a, b)) cs"

text \<open>
  The counters of the store are those of \<open>cs\<close> after the increments that the results
  report, and every dispatched task is reported as completed or as failed.
\<close>


definition counted :: "nat \<Rightarrow> (nat \<times> int \<times> int) list \<Rightarrow> run_state \<Rightarrow> bool" where
  "counted jid cs st \<longleftrightarrow>
     counters (rs_db st) = bump jid (res_completed st) (res_failed st) cs
     \<and> res_completed st + res_failed st = rs_dispatched st"

subsection \<open>A small run\<close>

text \<open>
  A job with four pending tasks. The first call of the remote service succeeds, the second
  is rejected by content moderation, the third fails with a server error; before the fourth
  task a stop is seen (the flag is set from its seventh reading on). The pause flag is never
  set, and moving a file works.
\<close>

definition ex_db :: database where
  "ex_db =
     (let d0 = \<lparr>batch_jobs = [\<lparr>job_id = 1, job_name = ''job'', job_status = ''pending'',
                    total_count = 4, completed_count = 0, failed_count = 0,
                    job_prompt_template = ''a cat'', job_settings = ''{}'',
                    job_created_at = ''t0'', job_updated_at = ''t0''\<rparr>],
                 generation_tasks = [], used_combinations = []\<rparr>;
          d1 = snd (create_generation_task ''t0'' d0 1 ''f/a.png'' ''o/1.png'' [] ''a cat'');
          d2 = snd (create_generation_task ''t0'' d1 1 ''f/a.png'' ''o/2.png'' [] ''a cat'');
          d3 = snd (create_generation_task ''t0'' d2 1 ''f/a.png'' ''o/3.png'' [] ''a cat'')
      in snd (create_generation_task ''t0'' d3 1 ''f/a.png'' ''o/4.png'' [] ''a cat''))"

definition ex_cfg :: batch_config where
  "ex_cfg = \<lparr>cfg_name = ''job'', cfg_total_count = 4, prompt_template = ''a cat'',
              face_source = None, outfit_source = None, background_source = None,
              prompt_source = None, allow_duplicate_combinations = False,
              error_folder = ''errors''\<rparr>"

definition ex_result :: "nat \<Rightarrow> generation_result" where
  "ex_result n =
     (if n = 0
      then \<lparr>gr_success = True, gr_task_id = Some ''r0'', gr_status = COMPLETED,
             gr_image_url = None, gr_image_urls = Some [''http://x/0.png''],
             gr_error = None, gr_raw_response = Some [(''state'', ''success'')]\<rparr>
      else \<lparr>gr_success = False, gr_task_id = Some ''r1'', gr_status = FAILED,
             gr_image_url = None, gr_image_urls = None,
             gr_error = Some (if n = 1 then ''NSFW content detected''
                              else ''HTTP 503 Service Unavailable''),
             gr_raw_response = None\<rparr>)"

definition ex_env :: run_env where
  "ex_env = \<lparr>re_stop = (\<lambda>n. 6 \<le> n), re_pause = (\<lambda>_. False),
              re_api = (\<lambda>n task. Returns (ex_result n)), re_move_ok = (\<lambda>_. True),
              re_now = ''t1'', re_stamp = ''20250101_000000'', re_dumps = (\<lambda>_. ''{}'')\<rparr>"

definition ex_files :: "string set" where
  "ex_files = {''f/a.png'', ''o/1.png'', ''o/2.png'', ''o/3.png'', ''o/4.png''}"


section \<open>Properties of the string functions\<close>

lemma str_in_iff: "str_in k s = (\<exists>p q. s = p @ k @ q)"
proof (induction s)
  case Nil
  then show ?case by auto
next
  case (Cons c cs)
  show ?case
  proof
    assume "str_in k (c # cs)"
    then consider "prefix k (c # cs)" | "str_in k cs" by auto
    then show "\<exists>p q. c # cs = p @ k @ q"
    proof cases
      case 1
      then obtain q where "c # cs = k @ q" by (auto simp: prefix_def)
      then have "c # cs = [] @ k @ q" by simp
      then show ?thesis by blast
    next
      case 2
      with Cons obtain p q where "cs = p @ k @ q" by auto
      then have "c # cs = (c # p) @ k @ q" by simp
      then show ?thesis by blast
    qed
  next
    assume "\<exists>p q. c # cs = p @ k @ q"
    then obtain p q where pq: "c # cs = p @ k @ q" by auto
    show "str_in k (c # cs)"
    proof (cases p)
      case Nil
      with pq have "prefix k (c # cs)" by (simp add: prefix_def)
      then show ?thesis by simp
    next
      case (Cons a p')
      with pq have "cs = p' @ k @ q" by simp
      with Cons.IH have "str_in k cs" by blast
      then show ?thesis by simp
    qed
  qed
qed

lemma lower_append: "lower (a @ b) = lower a @ lower b"
  by (simp add: lower_def)

lemma lower_Nil_iff: "lower s = [] \<longleftrightarrow> s = []"
  by (simp add: lower_def)

lemma keywords_nonempty: "k \<in> set content_error_keywords \<Longrightarrow> k \<noteq> []"
  by (auto simp: content_error_keywords_def)

lemma classifier_iff:
  "is_content_policy_error msg \<longleftrightarrow>
     (\<exists>k \<in> set content_error_keywords. \<exists>p q. lower msg = p @ k @ q)"
proof (cases "msg = []")
  case True
  then have "\<not> is_content_policy_error msg"
    by (simp add: is_content_policy_error_def)
  moreover have "\<not> (\<exists>k \<in> set content_error_keywords. \<exists>p q. lower msg = p @ k @ q)"
    using True keywords_nonempty by (auto simp: lower_def)
  ultimately show ?thesis by blast
next
  case False
  then show ?thesis
    by (simp add: is_content_policy_error_def list_ex_iff str_in_iff)
qed

lemma classifier_nsfw:
  assumes "msg = p @ s @ q" and "lower s = ''nsfw content detected''"
  shows "is_content_policy_error msg"
proof -
  have "lower msg = lower p @ ''nsfw'' @ ('' content detected'' @ lower q)"
    using assms by (simp add: lower_append)
  moreover have "''nsfw'' \<in> set content_error_keywords"
    by (simp add: content_error_keywords_def)
  ultimately show ?thesis
    unfolding classifier_iff by blast
qed

text \<open>
  Claim C5. The failure classifier lower-cases the message and answers true exactly when
  one of the fixed keywords occurs in the lower-cased message as a substring. Every message
  that contains "NSFW content detected" in any letter casing is classified as a
  content-policy error; the message "HTTP 500 Internal Server Error" is not.
\<close>

theorem is_content_policy_error_spec:
  "(is_content_policy_error msg \<longleftrightarrow>
      (\<exists>k \<in> set content_error_keywords. \<exists>p q. lower msg = p @ k @ q))
   \<and> ((\<exists>p s q. msg = p @ s @ q \<and> lower s = ''nsfw content detected'')
        \<longrightarrow> is_content_policy_error msg)
   \<and> \<not> is_content_policy_error ''HTTP 500 Internal Server Error''"
proof -
  have "\<not> is_content_policy_error ''HTTP 500 Internal Server Error''"
    by code_simp
  then show ?thesis
    using classifier_iff classifier_nsfw by blast
qed

theorem is_content_policy_error_spec_witness:
  "lower ''NsFw Content DETECTED'' = ''nsfw content detected''
   \<and> is_content_policy_error ''Task 17: NsFw Content DETECTED (code 7)''"
proof -
  have l: "lower ''NsFw Content DETECTED'' = ''nsfw content detected''"
    by code_simp
  have "''Task 17: NsFw Content DETECTED (code 7)''
          = ''Task 17: '' @ ''NsFw Content DETECTED'' @ '' (code 7)''"
    by simp
  with l have "\<exists>p s q. ''Task 17: NsFw Content DETECTED (code 7)'' = p @ s @ q
                 \<and> lower s = ''nsfw content detected''"
    by blast
  with is_content_policy_error_spec [of "''Task 17: NsFw Content DETECTED (code 7)''"] l
  show ?thesis by blast
qed


section \<open>Properties of the persistent store\<close>

lemma fold_append_if:
  "fold set_column (append_if col x us) t =
     (case x of None \<Rightarrow> fold set_column us t
      | Some v \<Rightarrow> if v \<noteq> [] then set_column (col, v) (fold set_column us t)
                  else fold set_column us t)"
  by (cases x) simp_all

lemma fold_append_json_if:
  "fold set_column (append_json_if dumps x us) t =
     (case x of None \<Rightarrow> fold set_column us t
      | Some d \<Rightarrow> if d \<noteq> [] then set_column (ColApiResponse, dumps d) (fold set_column us t)
                  else fold set_column us t)"
  by (cases x) simp_all


lemma update_row:
  "fold set_column
     (append_json_if dumps e
       (append_if ColErrorMessage d
         (append_if ColLocalPath c
           (append_if ColResultUrl b
             (append_if ColApiRequestId a [(ColStatus, status), (ColUpdatedAt, now)]))))) t
   = t\<lparr>task_status := status, task_updated_at := now,
        api_request_id := (if truthy a then a else api_request_id t),
        result_url := (if truthy b then b else result_url t),
        local_path := (if truthy c then c else local_path t),
        error_message := (if truthy d then d else error_message t),
        api_response := (if truthy e then map_option dumps e else api_response t)\<rparr>"
  unfolding fold_append_if fold_append_json_if
  by (cases a; cases b; cases c; cases d; cases e) simp_all

text \<open>
  Claim C10. \<open>update_task_status\<close> rewrites the addressed task row only: it sets the status
  and \<open>updated_at\<close>, and sets each of \<open>api_request_id\<close>, \<open>result_url\<close>,
  \<open>local_path\<close>, \<open>error_message\<close>, \<open>api_response\<close> exactly when a truthy argument
  was given for it; a \<open>None\<close> or empty argument keeps the stored value. All other columns
  of the row, all other rows, and the other tables are as before.
\<close>

theorem update_task_status_frame:
  "update_task_status now dumps db tid status a b c d e =
     db\<lparr>generation_tasks :=
          map (\<lambda>t. if task_id t = tid
                   then t\<lparr>task_status := status, task_updated_at := now,
                          api_request_id := (if truthy a then a else api_request_id t),
                          result_url := (if truthy b then b else result_url t),
                          local_path := (if truthy c then c else local_path t),
                          error_message := (if truthy d then d else error_message t),
                          api_response := (if truthy e then map_option dumps e
                                           else api_response t)\<rparr>
                   else t) (generation_tasks db)\<rparr>"
  by (simp add: update_task_status_def sql_update_tasks_def update_row)

lemma ledger_rows_mark_fresh:
  assumes "\<not> is_combination_used db jid h"
  shows "length (ledger_rows (mark_combination_used now db jid h f ou b) jid h) = 1"
proof -
  have "filter (\<lambda>r. uc_batch_job_id r = jid \<and> combination_hash r = h) (used_combinations db) = []"
    using assms by (auto simp: is_combination_used_def list_ex_iff filter_empty_conv)
  with assms show ?thesis
    by (simp add: mark_combination_used_def insert_used_combination_def ledger_rows_def
        is_combination_used_def)
qed

lemma length_filter_key_distinct:
  "distinct (map f xs) \<Longrightarrow> k \<in> f ` set xs \<Longrightarrow> length (filter (\<lambda>r. f r = k) xs) = 1"
proof (induction xs)
  case Nil
  then show ?case by simp
next
  case (Cons x xs)
  show ?case
  proof (cases "f x = k")
    case True
    with Cons.prems have "k \<notin> f ` set xs" by auto
    then have "filter (\<lambda>r. f r = k) xs = []"
      by (auto simp: filter_empty_conv)
    with True show ?thesis by simp
  next
    case False
    with Cons show ?thesis by auto
  qed
qed

lemma ledger_rows_used:
  assumes "ledger_unique db" and "is_combination_used db jid h"
  shows "length (ledger_rows db jid h) = 1"
proof -
  let ?key = "\<lambda>r. (uc_batch_job_id r, combination_hash r)"
  have d: "distinct (map ?key (used_combinations db))"
    using assms(1) by (simp add: ledger_unique_def)
  have m: "(jid, h) \<in> ?key ` set (used_combinations db)"
    using assms(2) by (force simp: is_combination_used_def list_ex_iff)
  have "length (filter (\<lambda>r. ?key r = (jid, h)) (used_combinations db)) = 1"
    using d m by (rule length_filter_key_distinct)
  then show ?thesis
    by (simp add: ledger_rows_def)
qed

lemma is_used_after_mark: "is_combination_used (mark_combination_used now db jid h f ou b) jid h"
  by (auto simp: mark_combination_used_def insert_used_combination_def is_combination_used_def
      list_ex_iff)

lemma mark_used_noop:
  "is_combination_used db jid h \<Longrightarrow> mark_combination_used now db jid h f ou b = db"
  by (simp add: mark_combination_used_def insert_used_combination_def is_combination_used_def)

lemma ledger_unique_mark:
  assumes "ledger_unique db"
  shows "ledger_unique (mark_combination_used now db jid h f ou b)"
proof (cases "is_combination_used db jid h")
  case True
  then show ?thesis using assms by (simp add: mark_used_noop)
next
  case False
  then have "(jid, h) \<notin> set (map (\<lambda>r. (uc_batch_job_id r, combination_hash r)) (used_combinations db))"
    by (auto simp: is_combination_used_def list_ex_iff)
  with assms False show ?thesis
    by (simp add: ledger_unique_def mark_combination_used_def insert_used_combination_def
        is_combination_used_def)
qed

text \<open>
  Claim C9. On a ledger that satisfies its uniqueness constraint, marking the same
  (job, hash) pair twice leaves exactly one row for the pair: the second \<open>INSERT\<close> is
  refused with \<open>IntegrityError\<close>, the method swallows it and returns with the table
  unchanged.
\<close>

theorem mark_combination_used_idempotent:
  assumes "ledger_unique db"
  shows "let db1 = mark_combination_used now1 db jid h f1 o1 b1;
             db2 = mark_combination_used now2 db1 jid h f2 o2 b2
         in insert_used_combination now2 db1 jid h f2 o2 b2 = Inl IntegrityError
            \<and> db2 = db1
            \<and> length (ledger_rows db2 jid h) = 1
            \<and> ledger_unique db2"
proof -
  define db1 where "db1 = mark_combination_used now1 db jid h f1 o1 b1"
  have u1: "ledger_unique db1"
    unfolding db1_def using assms by (rule ledger_unique_mark)
  have used: "is_combination_used db1 jid h"
    unfolding db1_def by (rule is_used_after_mark)
  have "insert_used_combination now2 db1 jid h f2 o2 b2 = Inl IntegrityError"
    using used by (simp add: insert_used_combination_def is_combination_used_def)
  moreover have "mark_combination_used now2 db1 jid h f2 o2 b2 = db1"
    using used by (rule mark_used_noop)
  moreover have "length (ledger_rows db1 jid h) = 1"
    using u1 used by (rule ledger_rows_used)
  ultimately show ?thesis
    using u1 by (simp add: db1_def [symmetric] Let_def)
qed

theorem mark_combination_used_idempotent_witness:
  "ledger_unique \<lparr>batch_jobs = [], generation_tasks = [], used_combinations = []\<rparr>
   \<and> length (ledger_rows
         (mark_combination_used ''t2''
            (mark_combination_used ''t1''
               \<lparr>batch_jobs = [], generation_tasks = [], used_combinations = []\<rparr>
               1 ''9f2c'' ''a.png'' ''b.png'' [])
            1 ''9f2c'' ''a.png'' ''b.png'' [])
         1 ''9f2c'') = 1"
proof -
  have u: "ledger_unique \<lparr>batch_jobs = [], generation_tasks = [], used_combinations = []\<rparr>"
    by (simp add: ledger_unique_def)
  from mark_combination_used_idempotent [OF u, of "''t1''" 1 "''9f2c''" "''a.png''" "''b.png''"
      "[]" "''t2''" "''a.png''" "''b.png''" "[]"]
  show ?thesis using u unfolding Let_def by blast
qed

section \<open>Properties of the source pools\<close>

lemma is_dir_not_file: "is_dir fs p \<Longrightarrow> \<not> is_file fs p"
  by (simp add: is_dir_def is_file_def split: fs_node.splits)

lemma image_pool_dir:
  assumes "is_dir fs (parse_path p)"
  shows "sorted (img_files (image_source_init fs p))"
    and "mset (img_files (image_source_init fs p)) =
           mset (map path_str
                   (filter (\<lambda>f. is_file fs f \<and> lower (p_suffix f) \<in> set image_extensions)
                      (iterdir fs (parse_path p))))"
  using assms by (simp_all add: image_source_init_def image_scan_folder_def Let_def)

lemma prompt_pool_dir:
  assumes "q \<noteq> []" and "is_dir fs (parse_path q)"
  shows "sorted (ps_files (prompt_source_init fs q))"
    and "mset (ps_files (prompt_source_init fs q)) =
           mset (map path_str
                   (filter (\<lambda>f. is_file fs f \<and> lower (p_suffix f) = ''.txt'')
                      (iterdir fs (parse_path q))))"
  using assms by (simp_all add: prompt_source_init_def prompt_scan_folder_def Let_def)

text \<open>
  Claim C7, as stated, fails: an image pool built from a single regular file holds that file
  whatever its extension is. Here the file is \<open>./in/notes.txt\<close>, whose suffix is not in the
  image allowlist.
\<close>

theorem image_single_file_counterexample:
  "lower (path_suffix ''./in/notes.txt'') \<notin> set image_extensions
   \<and> img_files (image_source_init ((\<lambda>_. Missing)(''in/notes.txt'' := RegularFile))
        ''./in/notes.txt'') = [''in/notes.txt'']"
proof -
  have "lower (path_suffix ''./in/notes.txt'') = ''.txt''"
    by code_simp
  then have "lower (path_suffix ''./in/notes.txt'') \<notin> set image_extensions"
    by (simp add: image_extensions_def)
  moreover have "img_files (image_source_init ((\<lambda>_. Missing)(''in/notes.txt'' := RegularFile))
        ''./in/notes.txt'') = [''in/notes.txt'']"
    by code_simp
  ultimately show ?thesis by blast
qed

text \<open>
  Claim C7, amended. Paths are taken as \<open>pathlib\<close> normalises them. A pool built from a
  directory holds exactly the regular files among the directory's entries whose lower-cased
  suffix is in the allowlist of the pool's kind, in sorted order. An image pool built from a
  single regular file holds exactly that file, whatever its extension; built from a path
  that is neither a directory nor a regular file it is empty. A prompt pool built from the
  empty path string is empty, even where that path denotes a directory; built from a
  non-empty path of a single regular file with suffix \<open>.txt\<close> it holds exactly that file;
  built from any other non-directory path it is empty.
\<close>

theorem source_pool_contents:
  "(is_dir fs (parse_path p) \<longrightarrow>
      sorted (img_files (image_source_init fs p))
      \<and> mset (img_files (image_source_init fs p)) =
          mset (map path_str
                  (filter (\<lambda>f. is_file fs f \<and> lower (p_suffix f) \<in> set image_extensions)
                     (iterdir fs (parse_path p)))))
   \<and> (is_file fs (parse_path p) \<longrightarrow>
        img_files (image_source_init fs p) = [path_str (parse_path p)])
   \<and> (\<not> is_dir fs (parse_path p) \<and> \<not> is_file fs (parse_path p) \<longrightarrow>
        img_files (image_source_init fs p) = [])
   \<and> (q = [] \<longrightarrow> ps_files (prompt_source_init fs q) = [])
   \<and> (q \<noteq> [] \<and> is_dir fs (parse_path q) \<longrightarrow>
      sorted (ps_files (prompt_source_init fs q))
      \<and> mset (ps_files (prompt_source_init fs q)) =
          mset (map path_str
                  (filter (\<lambda>f. is_file fs f \<and> lower (p_suffix f) = ''.txt'')
                     (iterdir fs (parse_path q)))))
   \<and> (q \<noteq> [] \<and> is_file fs (parse_path q) \<and> lower (path_suffix q) = ''.txt'' \<longrightarrow>
        ps_files (prompt_source_init fs q) = [path_str (parse_path q)])
   \<and> (\<not> is_dir fs (parse_path q)
        \<and> \<not> (is_file fs (parse_path q) \<and> lower (path_suffix q) = ''.txt'') \<longrightarrow>
        ps_files (prompt_source_init fs q) = [])"
proof (intro conjI impI)
  assume "is_dir fs (parse_path p)"
  then show "sorted (img_files (image_source_init fs p))"
    and "mset (img_files (image_source_init fs p)) =
          mset (map path_str
                  (filter (\<lambda>f. is_file fs f \<and> lower (p_suffix f) \<in> set image_extensions)
                     (iterdir fs (parse_path p))))"
    by (rule image_pool_dir)+
next
  assume "is_file fs (parse_path p)"
  then show "img_files (image_source_init fs p) = [path_str (parse_path p)]"
    using is_dir_not_file [of fs "parse_path p"] by (auto simp: image_source_init_def Let_def)
next
  assume "\<not> is_dir fs (parse_path p) \<and> \<not> is_file fs (parse_path p)"
  then show "img_files (image_source_init fs p) = []"
    by (simp add: image_source_init_def Let_def)
next
  assume "q = []"
  then show "ps_files (prompt_source_init fs q) = []"
    by (simp add: prompt_source_init_def)
next
  assume a: "q \<noteq> [] \<and> is_dir fs (parse_path q)"
  then show "sorted (ps_files (prompt_source_init fs q))"
    using prompt_pool_dir(1) by blast
  from a show "mset (ps_files (prompt_source_init fs q)) =
          mset (map path_str
                  (filter (\<lambda>f. is_file fs f \<and> lower (p_suffix f) = ''.txt'')
                     (iterdir fs (parse_path q))))"
    using prompt_pool_dir(2) by blast
next
  assume "q \<noteq> [] \<and> is_file fs (parse_path q) \<and> lower (path_suffix q) = ''.txt''"
  then show "ps_files (prompt_source_init fs q) = [path_str (parse_path q)]"
    using is_dir_not_file [of fs "parse_path q"]
    by (auto simp: prompt_source_init_def Let_def path_suffix_def)
next
  assume "\<not> is_dir fs (parse_path q)
        \<and> \<not> (is_file fs (parse_path q) \<and> lower (path_suffix q) = ''.txt'')"
  then show "ps_files (prompt_source_init fs q) = []"
    by (auto simp: prompt_source_init_def Let_def path_suffix_def)
qed

theorem source_pool_contents_witness:
  "let fs0 = (\<lambda>_. Missing)(''.'' := Directory [''n.txt''], ''n.txt'' := RegularFile,
                 ''pics'' := Directory [''b.PNG'', ''a.jpg'', ''n.txt'', ''x.png''],
                 ''pics/b.PNG'' := RegularFile, ''pics/a.jpg'' := RegularFile,
                 ''pics/n.txt'' := RegularFile, ''pics/x.png'' := Directory [])
   in is_dir fs0 (parse_path ''./pics/'')
      \<and> sorted (img_files (image_source_init fs0 ''./pics/''))
      \<and> mset (img_files (image_source_init fs0 ''./pics/'')) = {#''pics/a.jpg'', ''pics/b.PNG''#}
      \<and> sorted (ps_files (prompt_source_init fs0 ''./pics/''))
      \<and> mset (ps_files (prompt_source_init fs0 ''./pics/'')) = {#''pics/n.txt''#}
      \<and> is_file fs0 (parse_path ''./pics//n.txt'')
      \<and> lower (path_suffix ''./pics//n.txt'') = ''.txt''
      \<and> img_files (image_source_init fs0 ''./pics//n.txt'') = [''pics/n.txt'']
      \<and> ps_files (prompt_source_init fs0 ''./pics//n.txt'') = [''pics/n.txt'']
      \<and> \<not> is_dir fs0 (parse_path ''zz'') \<and> \<not> is_file fs0 (parse_path ''zz'')
      \<and> img_files (image_source_init fs0 ''zz'') = []
      \<and> \<not> is_dir fs0 (parse_path ''pics/b.PNG'')
      \<and> lower (path_suffix ''pics/b.PNG'') \<noteq> ''.txt''
      \<and> ps_files (prompt_source_init fs0 ''pics/b.PNG'') = []
      \<and> is_dir fs0 (parse_path [])
      \<and> ps_files (prompt_source_init fs0 []) = []"
proof -
  define fs0 where "fs0 = (\<lambda>_. Missing)(''.'' := Directory [''n.txt''], ''n.txt'' := RegularFile,
                 ''pics'' := Directory [''b.PNG'', ''a.jpg'', ''n.txt'', ''x.png''],
                 ''pics/b.PNG'' := RegularFile, ''pics/a.jpg'' := RegularFile,
                 ''pics/n.txt'' := RegularFile, ''pics/x.png'' := Directory [])"
  have d: "is_dir fs0 (parse_path ''./pics/'')"
    unfolding fs0_def by code_simp
  have im: "map path_str
              (filter (\<lambda>f. is_file fs0 f \<and> lower (p_suffix f) \<in> set image_extensions)
                 (iterdir fs0 (parse_path ''./pics/''))) = [''pics/b.PNG'', ''pics/a.jpg'']"
    unfolding fs0_def by code_simp
  have pm: "map path_str
              (filter (\<lambda>f. is_file fs0 f \<and> lower (p_suffix f) = ''.txt'')
                 (iterdir fs0 (parse_path ''./pics/''))) = [''pics/n.txt'']"
    unfolding fs0_def by code_simp
  have f: "is_file fs0 (parse_path ''./pics//n.txt'')"
    unfolding fs0_def by code_simp
  have s: "lower (path_suffix ''./pics//n.txt'') = ''.txt''"
    by code_simp
  have n: "path_str (parse_path ''./pics//n.txt'') = ''pics/n.txt''"
    by code_simp
  have z: "\<not> is_dir fs0 (parse_path ''zz'')" "\<not> is_file fs0 (parse_path ''zz'')"
    unfolding fs0_def by code_simp+
  have b: "\<not> is_dir fs0 (parse_path ''pics/b.PNG'')"
    unfolding fs0_def by code_simp
  have "lower (path_suffix ''pics/b.PNG'') = ''.png''"
    by code_simp
  then have t: "lower (path_suffix ''pics/b.PNG'') \<noteq> ''.txt''"
    by simp
  have c: "is_dir fs0 (parse_path [])"
    unfolding fs0_def by code_simp
  have "sorted (img_files (image_source_init fs0 ''./pics/''))
      \<and> mset (img_files (image_source_init fs0 ''./pics/'')) = {#''pics/a.jpg'', ''pics/b.PNG''#}
      \<and> sorted (ps_files (prompt_source_init fs0 ''./pics/''))
      \<and> mset (ps_files (prompt_source_init fs0 ''./pics/'')) = {#''pics/n.txt''#}"
    using source_pool_contents [of fs0 "''./pics/''" "''./pics/''"] d
    by (simp add: im pm)
  moreover have "img_files (image_source_init fs0 ''./pics//n.txt'') = [''pics/n.txt'']
      \<and> ps_files (prompt_source_init fs0 ''./pics//n.txt'') = [''pics/n.txt'']"
    using source_pool_contents [of fs0 "''./pics//n.txt''" "''./pics//n.txt''"] f s n by simp
  moreover have "img_files (image_source_init fs0 ''zz'') = []
      \<and> ps_files (prompt_source_init fs0 ''pics/b.PNG'') = []"
    using source_pool_contents [of fs0 "''zz''" "''pics/b.PNG''"] z b t by simp
  moreover have "ps_files (prompt_source_init fs0 []) = []"
    using source_pool_contents [of fs0 "[]" "[]"] by simp
  ultimately show ?thesis
    unfolding Let_def fs0_def [symmetric] using d f s z b t c by blast
qed

section \<open>Properties of the prompt cache\<close>

lemma read_file_cache_keeps:
  assumes "contents_cache src p = Some v" and "read_file dsk src q = (c, src', ev)"
  shows "contents_cache src' p = Some v"
  using assms by (auto simp: read_file_def Let_def split: option.splits)

lemma read_file_hit:
  assumes "contents_cache src p = Some v"
  shows "read_file dsk src p = (v, src, FromCache)"
  using assms by (simp add: read_file_def)

lemma read_file_served:
  assumes "read_file dsk src p = (c, src', ev)" and "ev \<noteq> DiskRead False"
  shows "contents_cache src' p = Some c"
  using assms by (auto simp: read_file_def Let_def split: option.splits)

lemma read_file_success_caches:
  assumes "read_file dsk src p = (c, src', DiskRead True)"
  shows "contents_cache src' p = Some c"
  using assms by (rule read_file_served) simp

lemma serve_cache_keeps:
  assumes "contents_cache src p = Some v" and "serve src reqs = (log, src')"
  shows "contents_cache src' p = Some v"
  using assms
proof (induction reqs arbitrary: src log)
  case Nil
  then show ?case by simp
next
  case (Cons r reqs)
  obtain dsk q where r: "r = (dsk, q)" by (cases r)
  obtain c s1 ev where g: "read_file dsk src q = (c, s1, ev)" by (cases "read_file dsk src q")
  obtain log1 s2 where s: "serve s1 reqs = (log1, s2)" by (cases "serve s1 reqs")
  from Cons.prems(2) r g s have "src' = s2"
    by (simp add: get_content_def)
  moreover have "contents_cache s1 p = Some v"
    using Cons.prems(1) g by (rule read_file_cache_keeps)
  ultimately show ?case using Cons.IH s by blast
qed

lemma serve_cached_no_read:
  assumes "contents_cache src p = Some v"
  shows "successful_reads p (fst (serve src reqs)) = 0"
  using assms
proof (induction reqs arbitrary: src)
  case Nil
  then show ?case by (simp add: successful_reads_def)
next
  case (Cons r reqs)
  obtain dsk q where r: "r = (dsk, q)" by (cases r)
  obtain c s1 ev where g: "read_file dsk src q = (c, s1, ev)" by (cases "read_file dsk src q")
  have k: "contents_cache s1 p = Some v"
    using Cons.prems g by (rule read_file_cache_keeps)
  have "q = p \<Longrightarrow> ev = FromCache"
    using read_file_hit [OF Cons.prems, of dsk] g by simp
  then have "\<not> (q = p \<and> ev = DiskRead True)" by auto
  moreover have "successful_reads p (fst (serve s1 reqs)) = 0"
    using k by (rule Cons.IH)
  ultimately show ?case
    using r g by (auto simp: successful_reads_def get_content_def split: prod.splits)
qed

lemma serve_reads_at_most_once: "successful_reads p (fst (serve src reqs)) \<le> 1"
proof (induction reqs arbitrary: src)
  case Nil
  then show ?case by (simp add: successful_reads_def)
next
  case (Cons r reqs)
  obtain dsk q where r: "r = (dsk, q)" by (cases r)
  obtain c s1 ev where g: "read_file dsk src q = (c, s1, ev)" by (cases "read_file dsk src q")
  have step: "successful_reads p (fst (serve src (r # reqs))) =
      (if q = p \<and> ev = DiskRead True then 1 else 0) + successful_reads p (fst (serve s1 reqs))"
    using r g by (auto simp: successful_reads_def get_content_def split: prod.splits)
  show ?case
  proof (cases "q = p \<and> ev = DiskRead True")
    case True
    with g have "contents_cache s1 p = Some c"
      using read_file_success_caches by blast
    then have "successful_reads p (fst (serve s1 reqs)) = 0"
      by (rule serve_cached_no_read)
    with step True show ?thesis by simp
  next
    case False
    with step Cons.IH [of s1] show ?thesis by simp
  qed
qed

text \<open>
  Claim C6, as stated, fails: a read that fails is not cached. Here the first request for
  \<open>prompts/a.txt\<close> finds no readable file and returns the empty string; the second
  request, made after the file has appeared, goes to the disk again and returns a different
  string.
\<close>

theorem get_content_failed_read_counterexample:
  "let src0 = \<lparr>ps_path = ''prompts'', ps_is_folder = True, ps_files = [''prompts/a.txt''],
                contents_cache = Map.empty\<rparr>;
       r1 = get_content Map.empty src0 ''prompts/a.txt'';
       r2 = get_content [''prompts/a.txt'' \<mapsto> ''a cat''] (fst (snd r1)) ''prompts/a.txt''
   in fst r1 = [] \<and> snd (snd r1) = DiskRead False
      \<and> fst r2 = ''a cat'' \<and> snd (snd r2) = DiskRead True \<and> fst r2 \<noteq> fst r1"
proof -
  have "strip ''a cat'' = ''a cat''"
    by code_simp
  then show ?thesis
    by (simp add: Let_def get_content_def read_file_def)
qed

text \<open>
  Claim C6, amended. Once a content request for a path has been served from the cache or by
  a successful read, every later request for that path, after any further requests and
  whatever the disk then holds, is served from the cache, returns the same string and leaves
  the source unchanged; so in any sequence of requests a path is read successfully at most
  once. A read that fails returns the empty string, raises nothing, and is not cached.
\<close>

theorem get_content_read_through_cache:
  "(get_content dsk1 src p = (c1, src1, ev1) \<and> ev1 \<noteq> DiskRead False
      \<and> serve src1 reqs = (log, src2)
      \<longrightarrow> get_content dsk2 src2 p = (c1, src2, FromCache))
   \<and> successful_reads p (fst (serve src reqs)) \<le> 1
   \<and> (contents_cache src p = None \<and> dsk1 p = None
      \<longrightarrow> get_content dsk1 src p = ([], src, DiskRead False))"
proof (intro conjI impI)
  assume a: "get_content dsk1 src p = (c1, src1, ev1) \<and> ev1 \<noteq> DiskRead False
      \<and> serve src1 reqs = (log, src2)"
  then have "contents_cache src1 p = Some c1"
    using read_file_served [of dsk1 src p c1 src1 ev1] by (simp add: get_content_def)
  with a have "contents_cache src2 p = Some c1"
    using serve_cache_keeps by blast
  then show "get_content dsk2 src2 p = (c1, src2, FromCache)"
    by (simp add: get_content_def read_file_hit)
next
  show "successful_reads p (fst (serve src reqs)) \<le> 1"
    by (rule serve_reads_at_most_once)
next
  assume "contents_cache src p = None \<and> dsk1 p = None"
  then show "get_content dsk1 src p = ([], src, DiskRead False)"
    by (simp add: get_content_def read_file_def)
qed

theorem get_content_read_through_cache_witness:
  "let src0 = \<lparr>ps_path = ''prompts'', ps_is_folder = True, ps_files = [''prompts/a.txt''],
                contents_cache = Map.empty\<rparr>;
       src1 = src0\<lparr>contents_cache := [''prompts/a.txt'' \<mapsto> ''a cat'']\<rparr>
   in get_content [''prompts/a.txt'' \<mapsto> ''a cat''] src0 ''prompts/a.txt''
        = (''a cat'', src1, DiskRead True)
      \<and> serve src1 [(Map.empty, ''prompts/b.txt'')]
        = ([(''prompts/b.txt'', [], DiskRead False)], src1)
      \<and> get_content Map.empty src1 ''prompts/a.txt'' = (''a cat'', src1, FromCache)
      \<and> get_content Map.empty src0 ''prompts/a.txt'' = ([], src0, DiskRead False)"
proof -
  define src0 where "src0 = \<lparr>ps_path = ''prompts'', ps_is_folder = True,
      ps_files = [''prompts/a.txt''], contents_cache = Map.empty\<rparr>"
  define src1 where "src1 = src0\<lparr>contents_cache := [''prompts/a.txt'' \<mapsto> ''a cat'']\<rparr>"
  have st: "strip ''a cat'' = ''a cat''"
    by code_simp
  have g: "get_content [''prompts/a.txt'' \<mapsto> ''a cat''] src0 ''prompts/a.txt''
        = (''a cat'', src1, DiskRead True)"
    using st by (simp add: get_content_def read_file_def src0_def src1_def Let_def)
  have s: "serve src1 [(Map.empty, ''prompts/b.txt'')]
        = ([(''prompts/b.txt'', [], DiskRead False)], src1)"
    by (simp add: get_content_def read_file_def src0_def src1_def)
  have n: "contents_cache src0 ''prompts/a.txt'' = None"
    by (simp add: src0_def)
  from get_content_read_through_cache [of "[''prompts/a.txt'' \<mapsto> ''a cat'']" src0
      "''prompts/a.txt''" "''a cat''" src1 "DiskRead True" "[(Map.empty, ''prompts/b.txt'')]"
      "[(''prompts/b.txt'', [], DiskRead False)]" src1 Map.empty] g s
  have c: "get_content Map.empty src1 ''prompts/a.txt'' = (''a cat'', src1, FromCache)"
    by simp
  from get_content_read_through_cache [of Map.empty src0 "''prompts/a.txt''"] n
  have "get_content Map.empty src0 ''prompts/a.txt'' = ([], src0, DiskRead False)"
    by simp
  with g s c show ?thesis
    unfolding Let_def src1_def [symmetric] src0_def [symmetric] src1_def [symmetric]
    by blast
qed

section \<open>Properties of the combination selector\<close>

lemma draw_prompt_db: "st_db (snd (draw_prompt env used st)) = st_db st"
  by (simp add: draw_prompt_def Let_def split: option.splits prod.splits)

lemma draw_prompt_allow:
  "allow_duplicate_combinations (st_config (snd (draw_prompt env used st)))
     = allow_duplicate_combinations (st_config st)"
  by (simp add: draw_prompt_def Let_def split: option.splits prod.splits)

lemma draw_prompt_template:
  "prompt_template (st_config (snd (draw_prompt env used st))) = prompt_template (st_config st)"
  by (simp add: draw_prompt_def Let_def split: option.splits prod.splits)

lemma draw_prompt_set_db:
  "draw_prompt env used (st\<lparr>st_db := d\<rparr>)
     = (fst (draw_prompt env used st), (snd (draw_prompt env used st))\<lparr>st_db := d\<rparr>)"
  by (simp add: draw_prompt_def Let_def split: option.splits prod.splits)

lemma draw_combination_db: "st_db (snd (draw_combination env used st)) = st_db st"
proof -
  have "\<And>n. st_db (snd (draw_prompt env used (st\<lparr>st_draws := n\<rparr>))) = st_db st"
    by (simp add: draw_prompt_db)
  then show ?thesis
    by (simp add: draw_combination_def Let_def split: prod.splits)
      (metis snd_conv)
qed

lemma draw_combination_allow:
  "allow_duplicate_combinations (st_config (snd (draw_combination env used st)))
     = allow_duplicate_combinations (st_config st)"
proof -
  have "\<And>n. allow_duplicate_combinations (st_config (snd (draw_prompt env used (st\<lparr>st_draws := n\<rparr>))))
          = allow_duplicate_combinations (st_config st)"
    by (simp add: draw_prompt_allow)
  then show ?thesis
    by (simp add: draw_combination_def Let_def split: prod.splits)
      (metis snd_conv)
qed

lemma draw_combination_template:
  "prompt_template (st_config (snd (draw_combination env used st))) = prompt_template (st_config st)"
proof -
  have "\<And>n. prompt_template (st_config (snd (draw_prompt env used (st\<lparr>st_draws := n\<rparr>))))
          = prompt_template (st_config st)"
    by (simp add: draw_prompt_template)
  then show ?thesis
    by (simp add: draw_combination_def Let_def split: prod.splits)
      (metis snd_conv)
qed

lemma draw_combination_set_db:
  "draw_combination env used (st\<lparr>st_db := d\<rparr>)
     = (fst (draw_combination env used st), (snd (draw_combination env used st))\<lparr>st_db := d\<rparr>)"
proof -
  have "draw_prompt env used (st\<lparr>st_db := d, st_draws := n\<rparr>)
     = (fst (draw_prompt env used (st\<lparr>st_draws := n\<rparr>)),
        (snd (draw_prompt env used (st\<lparr>st_draws := n\<rparr>)))\<lparr>st_db := d\<rparr>)" for n
    by (simp add: draw_prompt_def Let_def split: option.splits prod.splits)
  then show ?thesis
    by (simp add: draw_combination_def Let_def split: prod.splits)
qed

lemma select_attempts_allow:
  assumes "allow_duplicate_combinations (st_config st)"
  shows "select_attempts env jid used (Suc k) st = draw_combination env used st"
proof -
  obtain c st' where d: "draw_combination env used st = (c, st')"
    by (cases "draw_combination env used st")
  then have "allow_duplicate_combinations (st_config st')"
    using assms draw_combination_allow [of env used st] by simp
  with d show ?thesis
    by (simp split: prod.splits)
qed

lemma max_attempts_Suc: "max_attempts = Suc 99"
  by (simp add: max_attempts_def)

lemma select_combination_allow:
  assumes "allow_duplicate_combinations (st_config st)"
  shows "select_combination env jid used st = draw_combination env used st"
  unfolding select_combination_def max_attempts_Suc
  using assms by (rule select_attempts_allow)

text \<open>
  Claim C8. With \<open>allow_duplicate_combinations\<close> set, \<open>_select_combination\<close> returns the
  first draw: the ledger in the store after the call is the ledger before it (nothing is
  written), and the call made on any other store yields the same tuple and the same state
  apart from the store (nothing is read). A tuple that was returned can be returned again:
  with a face pool of two files and a random source that repeats its pick, two calls in a
  row return the same tuple.
\<close>

theorem select_combination_allow_duplicates:
  "(allow_duplicate_combinations (st_config st) \<longrightarrow>
      select_combination env jid used st = draw_combination env used st
      \<and> st_db (snd (select_combination env jid used st)) = st_db st
      \<and> select_combination env jid used (st\<lparr>st_db := d\<rparr>)
          = (fst (select_combination env jid used st),
             (snd (select_combination env jid used st))\<lparr>st_db := d\<rparr>))
   \<and> (let env0 = \<lparr>env_md5 = id, env_random = (\<lambda>_. 0), env_disk = Map.empty, env_now = ''t''\<rparr>;
           cfg0 = \<lparr>cfg_name = ''job'', cfg_total_count = 2, prompt_template = ''a cat'',
                    face_source = Some \<lparr>img_path = ''faces'', img_is_folder = True,
                                         img_files = [''faces/a.png'', ''faces/b.png'']\<rparr>,
                    outfit_source = None, background_source = None, prompt_source = None,
                    allow_duplicate_combinations = True, error_folder = []\<rparr>;
           st0 = \<lparr>st_db = \<lparr>batch_jobs = [], generation_tasks = [], used_combinations = []\<rparr>,
                   st_config = cfg0, st_draws = 0\<rparr>;
           r1 = select_combination env0 1 {} st0;
           r2 = select_combination env0 1 {} (snd r1)
       in fst r1 = (''faces/a.png'', [], [], [], ''a cat'') \<and> fst r2 = fst r1)"
proof (intro conjI impI)
  assume a: "allow_duplicate_combinations (st_config st)"
  then show sel: "select_combination env jid used st = draw_combination env used st"
    by (rule select_combination_allow)
  then show "st_db (snd (select_combination env jid used st)) = st_db st"
    by (simp add: draw_combination_db)
  have "allow_duplicate_combinations (st_config (st\<lparr>st_db := d\<rparr>))"
    using a by simp
  then have "select_combination env jid used (st\<lparr>st_db := d\<rparr>)
      = draw_combination env used (st\<lparr>st_db := d\<rparr>)"
    by (rule select_combination_allow)
  then show "select_combination env jid used (st\<lparr>st_db := d\<rparr>)
          = (fst (select_combination env jid used st),
             (snd (select_combination env jid used st))\<lparr>st_db := d\<rparr>)"
    using sel by (simp add: draw_combination_set_db)
next
  show "let env0 = \<lparr>env_md5 = id, env_random = (\<lambda>_. 0), env_disk = Map.empty, env_now = ''t''\<rparr>;
           cfg0 = \<lparr>cfg_name = ''job'', cfg_total_count = 2, prompt_template = ''a cat'',
                    face_source = Some \<lparr>img_path = ''faces'', img_is_folder = True,
                                         img_files = [''faces/a.png'', ''faces/b.png'']\<rparr>,
                    outfit_source = None, background_source = None, prompt_source = None,
                    allow_duplicate_combinations = True, error_folder = []\<rparr>;
           st0 = \<lparr>st_db = \<lparr>batch_jobs = [], generation_tasks = [], used_combinations = []\<rparr>,
                   st_config = cfg0, st_draws = 0\<rparr>;
           r1 = select_combination env0 1 {} st0;
           r2 = select_combination env0 1 {} (snd r1)
       in fst r1 = (''faces/a.png'', [], [], [], ''a cat'') \<and> fst r2 = fst r1"
    by (simp add: Let_def select_combination_allow
        draw_combination_def draw_image_def image_get_random_def random_choice_def
        draw_prompt_def)
qed

theorem select_combination_allow_duplicates_witness:
  "let env0 = \<lparr>env_md5 = id, env_random = (\<lambda>_. 0), env_disk = Map.empty, env_now = ''t''\<rparr>;
       cfg0 = \<lparr>cfg_name = ''job'', cfg_total_count = 2, prompt_template = ''a cat'',
                face_source = Some \<lparr>img_path = ''faces'', img_is_folder = True,
                                     img_files = [''faces/a.png'', ''faces/b.png'']\<rparr>,
                outfit_source = None, background_source = None, prompt_source = None,
                allow_duplicate_combinations = True, error_folder = []\<rparr>;
       db0 = \<lparr>batch_jobs = [], generation_tasks = [], used_combinations = []\<rparr>;
       st0 = \<lparr>st_db = db0, st_config = cfg0, st_draws = 0\<rparr>
   in allow_duplicate_combinations (st_config st0)
      \<and> st_db (snd (select_combination env0 1 {} st0)) = db0"
proof -
  define env0 where "env0 = \<lparr>env_md5 = id, env_random = (\<lambda>_. 0::nat), env_disk = Map.empty,
      env_now = ''t''\<rparr>"
  define st0 where "st0 = \<lparr>st_db = \<lparr>batch_jobs = [], generation_tasks = [], used_combinations = []\<rparr>,
      st_config = \<lparr>cfg_name = ''job'', cfg_total_count = 2, prompt_template = ''a cat'',
                face_source = Some \<lparr>img_path = ''faces'', img_is_folder = True,
                                     img_files = [''faces/a.png'', ''faces/b.png'']\<rparr>,
                outfit_source = None, background_source = None, prompt_source = None,
                allow_duplicate_combinations = True, error_folder = []\<rparr>, st_draws = 0\<rparr>"
  have a: "allow_duplicate_combinations (st_config st0)"
    by (simp add: st0_def)
  have "st_db (snd (select_combination env0 1 {} st0)) = st_db st0"
    using select_combination_allow_duplicates [of st0 env0 1 "{}"] a by blast
  then have "st_db (snd (select_combination env0 1 {} st0))
      = \<lparr>batch_jobs = [], generation_tasks = [], used_combinations = []\<rparr>"
    by (simp add: st0_def)
  with a show ?thesis
    unfolding Let_def env0_def st0_def by simp
qed

section \<open>Properties of task preparation\<close>

lemma is_used_mark_mono:
  "is_combination_used d jid h \<Longrightarrow>
     is_combination_used (mark_combination_used now d jid' h' f ou b) jid h"
  by (auto simp: mark_combination_used_def insert_used_combination_def is_combination_used_def
      list_ex_iff)

lemma is_used_create_task:
  "is_combination_used (snd (create_generation_task now d jid' f ou b p)) jid h
     = is_combination_used d jid h"
  by (simp add: create_generation_task_def is_combination_used_def Let_def)

text \<open>
  With duplicates disallowed a selection either is the fallback and leaves the store as it
  was, or returns a tuple whose hash was not in the ledger and records it.
\<close>

lemma select_attempts_outcome:
  assumes "\<not> allow_duplicate_combinations (st_config st)"
    and "select_attempts env jid used k st = ((f, ou, b, pf, pc), st')"
  shows "\<not> allow_duplicate_combinations (st_config st')
     \<and> ((f, ou, b, pf) = empty_tuple \<and> st_db st' = st_db st
        \<or> \<not> is_combination_used (st_db st) jid (tuple_hash env (f, ou, b, pf))
          \<and> st_db st' = mark_combination_used (env_now env) (st_db st) jid
                           (tuple_hash env (f, ou, b, pf)) f ou b)"
  using assms
proof (induction k arbitrary: st)
  case 0
  then show ?case by (auto simp: empty_tuple_def)
next
  case (Suc k)
  obtain f1 o1 b1 pf1 pc1 st1 where d: "draw_combination env used st = ((f1, o1, b1, pf1, pc1), st1)"
    by (metis prod_cases5 surj_pair)
  have db1: "st_db st1 = st_db st"
    using draw_combination_db [of env used st] d by simp
  have al1: "\<not> allow_duplicate_combinations (st_config st1)"
    using draw_combination_allow [of env used st] d Suc.prems(1) by simp
  show ?case
  proof (cases "is_combination_used (st_db st1) jid (generate_combination_hash env f1 o1 b1 pf1)")
    case True
    with d al1 Suc.prems(2) have "select_attempts env jid used k st1 = ((f, ou, b, pf, pc), st')"
      by (simp add: Let_def)
    with Suc.IH [OF al1] db1 show ?thesis by simp
  next
    case False
    with d al1 Suc.prems(2) have eq: "f = f1" "ou = o1" "b = b1" "pf = pf1"
      and st': "st' = st1\<lparr>st_db := mark_combination_used (env_now env) (st_db st1) jid
                        (generate_combination_hash env f1 o1 b1 pf1) f1 o1 b1\<rparr>"
      by (auto simp: Let_def)
    from False eq db1 have "\<not> is_combination_used (st_db st) jid (tuple_hash env (f, ou, b, pf))"
      by (simp add: tuple_hash_def)
    moreover from st' eq db1 have "st_db st' = mark_combination_used (env_now env) (st_db st) jid
                           (tuple_hash env (f, ou, b, pf)) f ou b"
      by (simp add: tuple_hash_def)
    moreover from st' al1 have "\<not> allow_duplicate_combinations (st_config st')"
      by simp
    ultimately show ?thesis by blast
  qed
qed

lemma repeats_only_empty_snoc:
  "repeats_only_empty (sels @ [s]) \<longleftrightarrow>
     repeats_only_empty sels
     \<and> (\<forall>x \<in> set sels. selection_tuple x = selection_tuple s \<longrightarrow> selection_tuple x = empty_tuple)"
proof
  assume r: "repeats_only_empty (sels @ [s])"
  have "repeats_only_empty sels"
    unfolding repeats_only_empty_def
  proof (intro allI impI)
    fix j i
    assume "j < length sels" "i < j"
      and "selection_tuple (sels ! i) = selection_tuple (sels ! j)"
    then show "selection_tuple (sels ! i) = empty_tuple"
      using r [unfolded repeats_only_empty_def, rule_format, of j i]
      by (simp add: nth_append)
  qed
  moreover have "\<forall>x \<in> set sels. selection_tuple x = selection_tuple s
      \<longrightarrow> selection_tuple x = empty_tuple"
  proof (intro ballI impI)
    fix x
    assume "x \<in> set sels" and e: "selection_tuple x = selection_tuple s"
    then obtain i where i: "i < length sels" "sels ! i = x"
      by (auto simp: in_set_conv_nth)
    then show "selection_tuple x = empty_tuple"
      using r [unfolded repeats_only_empty_def, rule_format, of "length sels" i] e
      by (simp add: nth_append)
  qed
  ultimately show "repeats_only_empty sels
     \<and> (\<forall>x \<in> set sels. selection_tuple x = selection_tuple s \<longrightarrow> selection_tuple x = empty_tuple)"
    by blast
next
  assume a: "repeats_only_empty sels
     \<and> (\<forall>x \<in> set sels. selection_tuple x = selection_tuple s \<longrightarrow> selection_tuple x = empty_tuple)"
  show "repeats_only_empty (sels @ [s])"
    unfolding repeats_only_empty_def
  proof (intro allI impI)
    fix j i
    assume j: "j < length (sels @ [s])" and i: "i < j"
      and e: "selection_tuple ((sels @ [s]) ! i) = selection_tuple ((sels @ [s]) ! j)"
    show "selection_tuple ((sels @ [s]) ! i) = empty_tuple"
    proof (cases "j < length sels")
      case True
      with i e a show ?thesis
        by (simp add: nth_append repeats_only_empty_def)
    next
      case False
      with j have jl: "j = length sels" by simp
      with i have "sels ! i \<in> set sels" by simp
      with a e i jl show ?thesis
        by (auto simp: nth_append)
    qed
  qed
qed

lemma prepare_loop_repeats:
  assumes "\<not> allow_duplicate_combinations (st_config st)"
    and "prepare_loop env jid k used created st sels = (n, st', sels')"
    and "\<forall>s \<in> set sels. selection_tuple s \<noteq> empty_tuple \<longrightarrow>
           is_combination_used (st_db st) jid (tuple_hash env (selection_tuple s))"
    and "repeats_only_empty sels"
  shows "repeats_only_empty sels'"
  using assms
proof (induction k arbitrary: used created st sels)
  case 0
  then show ?case by simp
next
  case (Suc k)
  obtain f ou b pf pc st1
    where sel: "select_combination env jid used st = ((f, ou, b, pf, pc), st1)"
    by (metis prod_cases5 surj_pair)
  from sel have "select_attempts env jid used max_attempts st = ((f, ou, b, pf, pc), st1)"
    by (simp add: select_combination_def)
  from select_attempts_outcome [OF Suc.prems(1) this]
  have al1: "\<not> allow_duplicate_combinations (st_config st1)"
    and out: "(f, ou, b, pf) = empty_tuple \<and> st_db st1 = st_db st
        \<or> \<not> is_combination_used (st_db st) jid (tuple_hash env (f, ou, b, pf))
          \<and> st_db st1 = mark_combination_used (env_now env) (st_db st) jid
                           (tuple_hash env (f, ou, b, pf)) f ou b"
    by blast+
  have inv1: "\<forall>s \<in> set sels. selection_tuple s \<noteq> empty_tuple \<longrightarrow>
           is_combination_used (st_db st1) jid (tuple_hash env (selection_tuple s))"
    using out Suc.prems(3) is_used_mark_mono by auto
  define used' where "used' = (if pf \<noteq> [] then insert pf used else used)"
  show ?case
  proof (cases "build_prompt pc f ou b = []")
    case True
    with Suc.prems(2) sel have "prepare_loop env jid k used' created st1 sels = (n, st', sels')"
      by (simp add: Let_def used'_def)
    from Suc.IH [OF al1 this inv1 Suc.prems(4)] show ?thesis .
  next
    case False
    obtain tid db' where cr: "create_generation_task (env_now env) (st_db st1) jid f ou b
        (build_prompt pc f ou b) = (tid, db')"
      by (cases "create_generation_task (env_now env) (st_db st1) jid f ou b
        (build_prompt pc f ou b)")
    let ?new = "(tid, f, ou, b, pf)"
    from Suc.prems(2) sel False cr
    have rec: "prepare_loop env jid k used' (created + 1) (st1\<lparr>st_db := db'\<rparr>) (sels @ [?new])
        = (n, st', sels')"
      by (simp add: Let_def used'_def)
    have al2: "\<not> allow_duplicate_combinations (st_config (st1\<lparr>st_db := db'\<rparr>))"
      using al1 by simp
    have used_db': "is_combination_used db' jid h = is_combination_used (st_db st1) jid h" for h
      using is_used_create_task [of "env_now env" "st_db st1" jid f ou b "build_prompt pc f ou b" jid h]
        cr by simp
    have new_used: "selection_tuple ?new \<noteq> empty_tuple \<longrightarrow>
           is_combination_used (st_db st1) jid (tuple_hash env (selection_tuple ?new))"
      using out is_used_after_mark by (auto simp: selection_tuple_def)
    have inv2: "\<forall>s \<in> set (sels @ [?new]). selection_tuple s \<noteq> empty_tuple \<longrightarrow>
           is_combination_used (st_db (st1\<lparr>st_db := db'\<rparr>)) jid
             (tuple_hash env (selection_tuple s))"
      using inv1 new_used used_db' by auto
    have "\<forall>x \<in> set sels. selection_tuple x = selection_tuple ?new
        \<longrightarrow> selection_tuple x = empty_tuple"
    proof (intro ballI impI)
      fix x
      assume x: "x \<in> set sels" and e: "selection_tuple x = selection_tuple ?new"
      show "selection_tuple x = empty_tuple"
      proof (rule ccontr)
        assume ne: "selection_tuple x \<noteq> empty_tuple"
        with x Suc.prems(3)
        have "is_combination_used (st_db st) jid (tuple_hash env (selection_tuple x))"
          by blast
        with e have u: "is_combination_used (st_db st) jid (tuple_hash env (f, ou, b, pf))"
          by (simp add: selection_tuple_def)
        from ne e have "(f, ou, b, pf) \<noteq> empty_tuple"
          by (simp add: selection_tuple_def)
        with out u show False by blast
      qed
    qed
    with Suc.prems(4) have rep2: "repeats_only_empty (sels @ [?new])"
      by (simp add: repeats_only_empty_snoc)
    from Suc.IH [OF al2 rec inv2 rep2] show ?thesis .
  qed
qed

text \<open>
  Claim C1, as stated, fails: the fallback tuple of an exhausted selection is materialized
  as a task like any other. With no pool at all, a job of two tasks gets the empty tuple
  twice (the second selection finds it in the ledger at each of its attempts). With a face
  pool of three files for three tasks and a random source that repeats its pick, the
  selections after the first fall back, and the last two tasks share the empty tuple.
\<close>

theorem prepare_tasks_fallback_counterexample:
  "let env0 = \<lparr>env_md5 = id, env_random = (\<lambda>_. 0), env_disk = Map.empty, env_now = ''t''\<rparr>;
       db0 = \<lparr>batch_jobs = [], generation_tasks = [], used_combinations = []\<rparr>;
       cfgA = \<lparr>cfg_name = ''job'', cfg_total_count = 2, prompt_template = ''a cat'',
                face_source = None, outfit_source = None, background_source = None,
                prompt_source = None, allow_duplicate_combinations = False, error_folder = []\<rparr>;
       cfgB = cfgA\<lparr>cfg_total_count := 3,
                face_source := Some \<lparr>img_path = ''faces'', img_is_folder = True,
                  img_files = [''faces/a.png'', ''faces/b.png'', ''faces/c.png'']\<rparr>\<rparr>
   in snd (snd (prepare_tasks env0 1 \<lparr>st_db = db0, st_config = cfgA, st_draws = 0\<rparr>))
        = [(1, [], [], [], []), (2, [], [], [], [])]
      \<and> snd (snd (prepare_tasks env0 1 \<lparr>st_db = db0, st_config = cfgB, st_draws = 0\<rparr>))
        = [(1, ''faces/a.png'', [], [], []), (2, [], [], [], []), (3, [], [], [], [])]"
  by code_simp

text \<open>
  Claim C1, amended. For every job with duplicate combinations disallowed, two distinct
  tasks materialized by one run of \<open>prepare_tasks\<close> share their
  (\<open>face_path\<close>, \<open>outfit_path\<close>, \<open>background_path\<close>, \<open>prompt_file\<close>) tuple only if that
  tuple is the all-empty tuple; tasks with any non-empty component differ pairwise. This
  holds for every number of pools, every pool size, every random source and every prior
  content of the ledger.
\<close>

theorem prepare_tasks_distinct_combinations:
  assumes "\<not> allow_duplicate_combinations (st_config st)"
    and "prepare_tasks env jid st = (n, st', sels)"
    and "i < j" and "j < length sels"
    and "selection_tuple (sels ! i) = selection_tuple (sels ! j)"
  shows "selection_tuple (sels ! i) = ([], [], [], [])"
proof -
  have "repeats_only_empty []"
    by (simp add: repeats_only_empty_def)
  with assms(1,2) have "repeats_only_empty sels"
    using prepare_loop_repeats [of st env jid _ "{}" 0 "[]" n st' sels]
    by (simp add: prepare_tasks_def)
  with assms(3,4,5) show ?thesis
    by (simp add: repeats_only_empty_def empty_tuple_def)
qed

theorem prepare_tasks_distinct_combinations_witness:
  "let env0 = \<lparr>env_md5 = id, env_random = (\<lambda>_. 0), env_disk = Map.empty, env_now = ''t''\<rparr>;
       st0 = \<lparr>st_db = \<lparr>batch_jobs = [], generation_tasks = [], used_combinations = []\<rparr>,
               st_config = \<lparr>cfg_name = ''job'', cfg_total_count = 2, prompt_template = ''a cat'',
                 face_source = None, outfit_source = None, background_source = None,
                 prompt_source = None, allow_duplicate_combinations = False,
                 error_folder = []\<rparr>,
               st_draws = 0\<rparr>;
       sels = snd (snd (prepare_tasks env0 1 st0))
   in \<not> allow_duplicate_combinations (st_config st0)
      \<and> (0::nat) < 1 \<and> 1 < length sels
      \<and> selection_tuple (sels ! 0) = selection_tuple (sels ! 1)
      \<and> selection_tuple (sels ! 0) = ([], [], [], [])"
proof -
  define env0 where "env0 = \<lparr>env_md5 = id, env_random = (\<lambda>_. 0::nat), env_disk = Map.empty,
      env_now = ''t''\<rparr>"
  define st0 where "st0 = \<lparr>st_db = \<lparr>batch_jobs = [], generation_tasks = [], used_combinations = []\<rparr>,
               st_config = \<lparr>cfg_name = ''job'', cfg_total_count = 2, prompt_template = ''a cat'',
                 face_source = None, outfit_source = None, background_source = None,
                 prompt_source = None, allow_duplicate_combinations = False,
                 error_folder = []\<rparr>,
               st_draws = 0\<rparr>"
  define sels where "sels = snd (snd (prepare_tasks env0 1 st0))"
  have s: "sels = [(1, [], [], [], []), (2, [], [], [], [])]"
    unfolding sels_def env0_def st0_def by code_simp
  have a: "\<not> allow_duplicate_combinations (st_config st0)"
    by (simp add: st0_def)
  have p: "prepare_tasks env0 1 st0
      = (fst (prepare_tasks env0 1 st0), fst (snd (prepare_tasks env0 1 st0)), sels)"
    by (simp add: sels_def)
  have l: "1 < length sels"
    by (simp add: s)
  have e: "selection_tuple (sels ! 0) = selection_tuple (sels ! 1)"
    by (simp add: s selection_tuple_def)
  have "selection_tuple (sels ! 0) = ([], [], [], [])"
    using prepare_tasks_distinct_combinations [OF a p _ l e] by simp
  with a l e show ?thesis
    unfolding Let_def env0_def [symmetric] st0_def [symmetric] sels_def [symmetric]
    by simp
qed

section \<open>Properties of the batch runner\<close>

lemma counters_update_task_status [simp]:
  "counters (update_task_status now dumps d tid s a b c e r) = counters d"
  by (simp add: counters_def update_task_status_def Let_def)

lemma counters_update_batch_job_status [simp]:
  "counters (update_batch_job_status now d jid s) = counters d"
  by (simp add: counters_def update_batch_job_status_def comp_def)

lemma counters_increment:
  "counters (increment_batch_job_count now d jid completed)
     = bump jid (if completed then 1 else 0) (if completed then 0 else 1) (counters d)"
  by (simp add: counters_def increment_batch_job_count_def bump_def comp_def)

lemma bump_bump: "bump jid c f (bump jid c' f' cs) = bump jid (c + c') (f + f') cs"
  by (induction cs) (auto simp: bump_def)

lemma bump_zero [simp]: "bump jid 0 0 cs = cs"
  by (induction cs) (auto simp: bump_def)

lemma on_success_counted:
  assumes "counters (rs_db st) = bump jid (res_completed st) (res_failed st) cs"
  shows "counters (rs_db (on_success env jid task result st))
           = bump jid (res_completed st + 1) (res_failed st) cs"
    and "res_completed (on_success env jid task result st) = res_completed st + 1"
    and "res_failed (on_success env jid task result st) = res_failed st"
    and "rs_dispatched (on_success env jid task result st) = rs_dispatched st"
  using assms by (simp_all add: on_success_def Let_def counters_increment bump_bump)

lemma on_failure_fields:
  "res_completed (on_failure env cfg jid task result st) = res_completed st"
  "res_failed (on_failure env cfg jid task result st) = res_failed st + 1"
  "rs_dispatched (on_failure env cfg jid task result st) = rs_dispatched st"
  "rs_tick (on_failure env cfg jid task result st) = rs_tick st"
  "res_stopped (on_failure env cfg jid task result st) = res_stopped st"
  "rs_db (on_failure env cfg jid task result st)
     = increment_batch_job_count (re_now env)
         (update_task_status (re_now env) (re_dumps env) (rs_db st) (task_id task) ''failed''
            (gr_task_id result) None None (Some (error_text result)) (gr_raw_response result))
         jid False"
  by (simp_all add: on_failure_def Let_def split: option.splits prod.splits)

lemma on_failure_counted:
  assumes "counters (rs_db st) = bump jid (res_completed st) (res_failed st) cs"
  shows "counters (rs_db (on_failure env cfg jid task result st))
           = bump jid (res_completed st) (res_failed st + 1) cs"
  using assms by (simp add: on_failure_fields counters_increment bump_bump)

lemma iteration_counted:
  assumes "counted jid cs st"
    and "iteration env cfg jid task st = Some r"
    and "r = Break st' \<or> r = Continue st'"
  shows "counted jid cs st'"
proof -
  obtain stopped t' where c: "check_signals env (rs_tick st) = Some (stopped, t')"
    using assms(2) by (auto simp: iteration_def split: option.splits)
  show ?thesis
  proof (cases stopped)
    case True
    with c assms(2,3) have "st' = st\<lparr>res_stopped := True, rs_tick := t'\<rparr>"
      by (auto simp: iteration_def)
    with assms(1) show ?thesis by (simp add: counted_def)
  next
    case False
    define st1 where "st1 = st\<lparr>rs_db := update_task_status (re_now env) (re_dumps env) (rs_db st)
        (task_id task) ''processing'' None None None None None, rs_tick := t',
        rs_dispatched := rs_dispatched st + 1\<rparr>"
    have c1: "counters (rs_db st1) = bump jid (res_completed st1) (res_failed st1) cs"
      and d1: "res_completed st1 + res_failed st1 + 1 = rs_dispatched st1"
      using assms(1) by (simp_all add: st1_def counted_def)
    from False c assms(2,3) obtain result
      where "re_api env (rs_dispatched st) task = Returns result"
        and st': "st' = (if gr_success result \<and> gr_status result = COMPLETED
                  then on_success env jid task result st1
                  else on_failure env cfg jid task result st1)"
      by (auto simp: iteration_def Let_def st1_def split: api_outcome.splits if_splits)
    show ?thesis
    proof (cases "gr_success result \<and> gr_status result = COMPLETED")
      case True
      with st' have "st' = on_success env jid task result st1" by simp
      with on_success_counted [OF c1, of env task result] d1 show ?thesis
        by (simp add: counted_def)
    next
      case False
      with st' have "st' = on_failure env cfg jid task result st1" by simp
      with on_failure_counted [OF c1, of env cfg task result] d1 show ?thesis
        by (simp add: counted_def on_failure_fields)
    qed
  qed
qed

lemma run_loop_counted:
  assumes "counted jid cs st" and "run_loop env cfg jid tasks st = Some (None, st')"
  shows "counted jid cs st'"
  using assms
proof (induction tasks arbitrary: st)
  case Nil
  then show ?case by simp
next
  case (Cons task tasks)
  from Cons.prems(2) obtain r where r: "iteration env cfg jid task st = Some r"
    by (auto split: option.splits)
  show ?case
  proof (cases r)
    case (Break s)
    with r Cons.prems(2) have "s = st'" by simp
    with iteration_counted [OF Cons.prems(1) r] Break show ?thesis by simp
  next
    case (Raise e s)
    with r Cons.prems(2) show ?thesis by simp
  next
    case (Continue s)
    with r Cons.prems(2) have "run_loop env cfg jid tasks s = Some (None, st')" by simp
    moreover have "counted jid cs s"
      using iteration_counted [OF Cons.prems(1) r] Continue by simp
    ultimately show ?thesis by (rule Cons.IH [rotated])
  qed
qed

text \<open>
  Claim C2. When \<open>run_batch\<close> returns without an exception, the numbers of completed and
  failed tasks it reports add up to the number of tasks it dispatched, and the counters of
  the job in the store have grown by exactly these numbers: every dispatched task has
  incremented one of the two counters once, and no other job's counters have changed.
\<close>

theorem run_batch_counters:
  assumes "run_batch env cfg jid db0 files = Some (None, st')"
  shows "res_completed st' + res_failed st' = rs_dispatched st'
     \<and> counters (rs_db st') = bump jid (res_completed st') (res_failed st') (counters db0)"
proof -
  define st where "st = start_state env jid db0 files"
  have c0: "counted jid (counters db0) st"
    by (simp add: counted_def st_def start_state_def Let_def)
  from assms obtain s
    where l: "run_loop env cfg jid (get_pending_tasks (rs_db st) jid) st = Some (None, s)"
      and st': "st' = s\<lparr>rs_db := update_batch_job_status (re_now env) (rs_db s) jid
                   (if res_stopped s then ''stopped'' else ''completed'')\<rparr>"
    by (auto simp: run_batch_def Let_def st_def split: option.splits)
  from run_loop_counted [OF c0 l] have "counted jid (counters db0) s" .
  with st' show ?thesis
    by (simp add: counted_def)
qed

theorem run_batch_counters_witness:
  "\<exists>st'. run_batch ex_env ex_cfg 1 ex_db ex_files = Some (None, st')
     \<and> res_completed st' + res_failed st' = rs_dispatched st'
     \<and> rs_dispatched st' = 3 \<and> res_total st' = 4
     \<and> counters ex_db = [(1, 0, 0)]
     \<and> counters (rs_db st') = bump 1 (res_completed st') (res_failed st') [(1, 0, 0)]"
proof -
  have "map_option (\<lambda>(e, s). (e, rs_dispatched s, res_total s))
          (run_batch ex_env ex_cfg 1 ex_db ex_files) = Some (None, 3, 4)"
    by code_simp
  then obtain st' where r: "run_batch ex_env ex_cfg 1 ex_db ex_files = Some (None, st')"
    and d: "rs_dispatched st' = 3" "res_total st' = 4"
    by (auto split: prod.splits)
  have c: "counters ex_db = [(1, 0, 0)]"
    by code_simp
  from run_batch_counters [OF r] c
  have "res_completed st' + res_failed st' = rs_dispatched st'
     \<and> counters (rs_db st') = bump 1 (res_completed st') (res_failed st') [(1, 0, 0)]"
    by simp
  with r d c show ?thesis by blast
qed














end
